theory Spec2Isabelle
  imports Complex_Main "HOL-Library.Word"
begin

unbundle bit_operations_syntax

section \<open>Errors and panics\<close>

text \<open>
  Error numbers returned by the modelled functions; \<open>None\<close> of type \<open>errno option\<close>
  is Go's \<open>nil\<close> error.
\<close>

datatype errno = EINVAL | EAGAIN | EBUSY | EPERM | ESRCH | EFAULT

text \<open>
  The run-time panics of the modelled code: the explicit \<open>panic\<close> calls of the source and
  the panics Go raises for \<open>close\<close> of a nil or closed channel and for a send on a closed
  channel.
\<close>

datatype panic =
    PanicOutstandingNegative
  | PanicCloseNilChannel
  | PanicCloseClosedChannel
  | PanicSendClosedChannel
  | PanicInvalidMmapLayout
  | PanicInt63n

section \<open>Asynchronous I/O contexts (pkg/sentry/mm/aio_context.go)\<close>

text \<open>
  The methods of a context run under its mutex, so each is one step on the state.
  A Go channel of \<open>struct{}\<close> is given by the number of buffered elements, the
  capacity, and whether it has been closed. Channels live in a store indexed by address, because the context only
  holds a reference that it later overwrites with nil while waiters keep the channel.
\<close>

record chan =
  chan_len :: nat
  chan_cap :: nat
  chan_closed :: bool

type_synonym chan_store = "nat \<Rightarrow> chan"

definition make_chan :: "nat \<Rightarrow> chan" where
  "make_chan n = \<lparr>chan_len = 0, chan_cap = n, chan_closed = False\<rparr>"

text \<open>Go's \<open>close(ch)\<close>: panics on a nil channel and on a closed channel.\<close>

definition close_chan :: "nat option \<Rightarrow> chan_store \<Rightarrow> panic + chan_store" where
  "close_chan r h =
     (case r of
        None \<Rightarrow> Inl PanicCloseNilChannel
      | Some a \<Rightarrow>
          if chan_closed (h a) then Inl PanicCloseClosedChannel
          else Inr (h(a := (h a)\<lparr>chan_closed := True\<rparr>)))"

text \<open>
  Go's \<open>select { case ch <- struct{}{}: default: }\<close>: a nil channel and a full channel
  take the default branch, a closed channel panics.
\<close>

definition try_send :: "nat option \<Rightarrow> chan_store \<Rightarrow> panic + chan_store" where
  "try_send r h =
     (case r of
        None \<Rightarrow> Inr h
      | Some a \<Rightarrow>
          if chan_closed (h a) then Inl PanicSendClosedChannel
          else if chan_len (h a) < chan_cap (h a)
               then Inr (h(a := (h a)\<lparr>chan_len := Suc (chan_len (h a))\<rparr>))
               else Inr h)"

text \<open>
  \<open>AIOContext\<close>: \<open>requestReady\<close> is the address of the notification channel
  (\<open>None\<close> is nil), \<open>results\<close> the list of completed requests, the two counters are
  \<open>uint32\<close>.
\<close>

record 'a AIOContext =
  requestReady :: "nat option"
  results :: "'a list"
  maxOutstanding :: "32 word"
  outstanding :: "32 word"
  dead :: bool

text \<open>The state one context's methods work on: the context and the channel store.\<close>

type_synonym 'a aio_state = "'a AIOContext \<times> chan_store"

text \<open>
  \<open>aioManager\<close> with the channel allocator: \<open>contexts\<close> maps an id to its context,
  \<open>next_chan\<close> is the next free channel address.
\<close>

record 'a aioManager =
  contexts :: "64 word \<rightharpoonup> 'a AIOContext"
  chans :: chan_store
  next_chan :: nat

definition newAIOContext :: "'a aioManager \<Rightarrow> 32 word \<Rightarrow> 64 word \<Rightarrow> 'a aioManager \<times> bool" where
  "newAIOContext a events ident =
     (case contexts a ident of
        Some _ \<Rightarrow> (a, False)
      | None \<Rightarrow>
          (a\<lparr>contexts := (contexts a)(ident \<mapsto>
                 \<lparr>requestReady = Some (next_chan a), results = [],
                  maxOutstanding = events, outstanding = 0, dead = False\<rparr>),
              chans := (chans a)(next_chan a := make_chan 1),
              next_chan := Suc (next_chan a)\<rparr>, True))"

definition checkForDone :: "'a aio_state \<Rightarrow> panic + 'a aio_state" where
  "checkForDone s =
     (case s of (c, h) \<Rightarrow>
        if dead c \<and> outstanding c = 0 then
          (case close_chan (requestReady c) h of
             Inl p \<Rightarrow> Inl p
           | Inr h' \<Rightarrow> Inr (c\<lparr>requestReady := None\<rparr>, h'))
        else Inr (c, h))"

definition destroy :: "'a aio_state \<Rightarrow> panic + 'a aio_state" where
  "destroy s = (case s of (c, h) \<Rightarrow> checkForDone (c\<lparr>dead := True\<rparr>, h))"

definition Prepare :: "'a AIOContext \<Rightarrow> errno option \<times> 'a AIOContext" where
  "Prepare c =
     (if dead c then (Some EINVAL, c)
      else if outstanding c \<ge> maxOutstanding c then (Some EAGAIN, c)
      else (None, c\<lparr>outstanding := outstanding c + 1\<rparr>))"

text \<open>
  \<open>PopRequest\<close> returns the popped data and \<open>true\<close>, or nil and \<open>false\<close>: here
  \<open>Some\<close> data or \<open>None\<close>.
\<close>

definition PopRequest :: "'a aio_state \<Rightarrow> panic + ('a option \<times> 'a aio_state)" where
  "PopRequest s =
     (case s of (c, h) \<Rightarrow>
        (case results c of
           e # rest \<Rightarrow>
             if outstanding c = 0 then Inl PanicOutstandingNegative
             else (case checkForDone (c\<lparr>outstanding := outstanding c - 1, results := rest\<rparr>, h) of
                     Inl p \<Rightarrow> Inl p
                   | Inr s' \<Rightarrow> Inr (Some e, s'))
         | [] \<Rightarrow> Inr (None, (c, h))))"

definition FinishRequest :: "'a \<Rightarrow> 'a aio_state \<Rightarrow> panic + 'a aio_state" where
  "FinishRequest d s =
     (case s of (c, h) \<Rightarrow>
        (case try_send (requestReady c) h of
           Inl p \<Rightarrow> Inl p
         | Inr h' \<Rightarrow> Inr (c\<lparr>results := results c @ [d]\<rparr>, h')))"

definition WaitChannel :: "'a AIOContext \<Rightarrow> nat option" where
  "WaitChannel c = requestReady c"

definition Dead :: "'a AIOContext \<Rightarrow> bool" where
  "Dead c = dead c"

definition CancelPendingRequest :: "'a aio_state \<Rightarrow> panic + 'a aio_state" where
  "CancelPendingRequest s =
     (case s of (c, h) \<Rightarrow>
        if outstanding c = 0 then Inl PanicOutstandingNegative
        else checkForDone (c\<lparr>outstanding := outstanding c - 1\<rparr>, h))"

text \<open>\<open>uint32(ctx.results.Len())\<close> truncates the list length to 32 bits.\<close>

definition Drain :: "'a aio_state \<Rightarrow> panic + 'a aio_state" where
  "Drain s =
     (case s of (c, h) \<Rightarrow>
        if outstanding c = 0 then Inr (c, h)
        else let size = (word_of_nat (length (results c)) :: 32 word) in
          if outstanding c < size then Inl PanicOutstandingNegative
          else checkForDone (c\<lparr>outstanding := outstanding c - size, results := []\<rparr>, h))"

text \<open>
  A sequence of calls on one context. A panic ends the run; the run returns the panic (if
  any) and the last state before it.
\<close>

datatype 'a aio_call =
    CallPrepare
  | CallFinishRequest 'a
  | CallPopRequest
  | CallCancelPendingRequest
  | CallDrain
  | CallDestroy

fun aio_step :: "'a aio_call \<Rightarrow> 'a aio_state \<Rightarrow> panic + 'a aio_state" where
  "aio_step CallPrepare (c, h) = Inr (snd (Prepare c), h)"
| "aio_step (CallFinishRequest d) s = FinishRequest d s"
| "aio_step CallPopRequest s =
     (case PopRequest s of Inl p \<Rightarrow> Inl p | Inr (_, s') \<Rightarrow> Inr s')"
| "aio_step CallCancelPendingRequest s = CancelPendingRequest s"
| "aio_step CallDrain s = Drain s"
| "aio_step CallDestroy s = destroy s"

fun aio_run :: "'a aio_call list \<Rightarrow> 'a aio_state \<Rightarrow> panic option \<times> 'a aio_state" where
  "aio_run [] s = (None, s)"
| "aio_run (x # xs) s =
     (case aio_step x s of Inl p \<Rightarrow> (Some p, s) | Inr s' \<Rightarrow> aio_run xs s')"

text \<open>The context a fresh manager creates for \<open>events\<close>, with its channel store.\<close>

definition empty_manager :: "'a aioManager" where
  "empty_manager = \<lparr>contexts = Map.empty, chans = (\<lambda>_. make_chan 0), next_chan = 0\<rparr>"

definition fresh_context :: "32 word \<Rightarrow> 64 word \<Rightarrow> 'a aio_state" where
  "fresh_context events ident =
     (let a = fst (newAIOContext empty_manager events ident)
      in (the (contexts a ident), chans a))"

text \<open>\<open>n\<close> consecutive calls of \<open>Prepare\<close>: the errors returned, in order, and the final context.\<close>

fun prepare_times :: "nat \<Rightarrow> 'a AIOContext \<Rightarrow> errno option list \<times> 'a AIOContext" where
  "prepare_times 0 c = ([], c)"
| "prepare_times (Suc n) c =
     (case Prepare c of (e, c') \<Rightarrow>
        (case prepare_times n c' of (es, c'') \<Rightarrow> (e # es, c'')))"

text \<open>
  The state of a context after one \<open>Prepare\<close> and one \<open>FinishRequest\<close>: one request is
  outstanding and its result is queued.
\<close>

definition one_completed :: "unit aio_state" where
  "one_completed = snd (aio_run [CallPrepare, CallFinishRequest ()] (fresh_context 8 0))"

text \<open>
  The relation between the channel and the counters that every call maintains: the
  reference is nil exactly when the context is dead with nothing outstanding, and the
  channel (at address 0, the first one allocated) is closed exactly then.
\<close>

definition aio_inv :: "'a aio_state \<Rightarrow> bool" where
  "aio_inv s =
     (case s of (c, h) \<Rightarrow>
        (case requestReady c of
           None \<Rightarrow> dead c \<and> outstanding c = 0 \<and> chan_closed (h 0)
         | Some a \<Rightarrow> a = 0 \<and> \<not> chan_closed (h 0) \<and> \<not> (dead c \<and> outstanding c = 0)))"

section \<open>The amd64 mmap layout (pkg/sentry/arch/arch.go)\<close>

type_synonym Addr = "64 word"

text \<open>
  Modelled from the spec: package hostarch is not among the sources. Addresses are 64-bit
  and the address space is page-granular with 4096-byte pages on amd64; \<open>RoundDown\<close>
  clears the offset within the page, \<open>RoundUp\<close> rounds to the next page boundary and
  reports whether the addition wrapped around.
\<close>

definition PageSize :: "64 word" where
  "PageSize = 4096"

definition RoundDown :: "Addr \<Rightarrow> Addr" where
  "RoundDown v = v AND NOT (PageSize - 1)"

definition RoundUp :: "Addr \<Rightarrow> Addr \<times> bool" where
  "RoundUp v = (let addr = RoundDown (v + PageSize - 1) in (addr, addr \<ge> v))"

text \<open>
  Modelled from the spec: package limits is not among the sources; \<open>limits.Infinity\<close> is
  the largest \<open>uint64\<close>. Of the limit set only the current stack limit is used.
\<close>

definition Infinity :: "64 word" where
  "Infinity = NOT 0"

datatype MmapDirection = MmapBottomUp | MmapTopDown

record MmapLayout =
  MinAddr :: Addr
  MaxAddr :: Addr
  BottomUpBase :: Addr
  TopDownBase :: Addr
  DefaultDirection :: MmapDirection
  MaxStackRand :: "64 word"

definition Valid :: "MmapLayout \<Rightarrow> bool" where
  "Valid m =
     (if MinAddr m > MaxAddr m then False
      else if BottomUpBase m < MinAddr m then False
      else if BottomUpBase m > MaxAddr m then False
      else if TopDownBase m < MinAddr m then False
      else if TopDownBase m > MaxAddr m then False
      else True)"

definition maxAddr64 :: Addr where
  "maxAddr64 = push_bit 47 1 - PageSize"

definition maxStackRand64 :: "64 word" where
  "maxStackRand64 = push_bit 30 16"

definition maxMmapRand64 :: "64 word" where
  "maxMmapRand64 = push_bit 28 1 * PageSize"

definition minGap64 :: "64 word" where
  "minGap64 = push_bit 20 128 + maxStackRand64"

definition preferredTopDownAllocMin :: Addr where
  "preferredTopDownAllocMin = 0x7e8000000000"

definition preferredAllocationGap :: "64 word" where
  "preferredAllocationGap = push_bit 30 128"

definition preferredTopDownBaseMin :: Addr where
  "preferredTopDownBaseMin = preferredTopDownAllocMin + preferredAllocationGap"

definition minMmapRand64 :: "64 word" where
  "minMmapRand64 = push_bit 26 1 * PageSize"

text \<open>
  \<open>mmapRand max\<close> is \<open>rand.Int63n(int64(max))\<close> rounded down to a page. The value drawn is
  the parameter \<open>r\<close> (Go returns some \<open>0 \<le> r < max\<close>); \<open>Int63n\<close> panics when its
  argument, read as \<open>int64\<close>, is not positive.
\<close>

definition mmapRand :: "64 word \<Rightarrow> 64 word \<Rightarrow> panic + Addr" where
  "mmapRand maxv r = (if sint maxv \<le> 0 then Inl PanicInt63n else Inr (RoundDown r))"

text \<open>The adjustment of \<open>maxRand\<close> in \<open>NewMmapLayout\<close>, from \<open>topDownMin\<close>.\<close>

definition shrinkMaxRand :: "Addr \<Rightarrow> Addr" where
  "shrinkMaxRand topDownMin =
     (let maxRand = maxMmapRand64 in
      if topDownMin < preferredTopDownBaseMin then
        (let maxAdjust = maxRand - minMmapRand64;
             needAdjust = preferredTopDownBaseMin - topDownMin
         in if needAdjust \<le> maxAdjust then maxRand - needAdjust else maxRand)
      else maxRand)"

text \<open>
  \<open>Context64.NewMmapLayout min max r\<close>: \<open>stackCur\<close> is \<open>r.Get(limits.Stack).Cur\<close> and
  \<open>r\<close> the random draw. The result is a panic, or the returned pair: an error or a layout.
\<close>

definition NewMmapLayout :: "Addr \<Rightarrow> Addr \<Rightarrow> 64 word \<Rightarrow> 64 word \<Rightarrow> panic + (errno + MmapLayout)" where
  "NewMmapLayout min0 max0 stackCur r =
     (case RoundUp min0 of (minA, ok) \<Rightarrow>
        if \<not> ok then Inr (Inl EINVAL)
        else
          let maxA = RoundDown (if max0 > maxAddr64 then maxAddr64 else max0) in
          if minA > maxA then Inr (Inl EINVAL)
          else
            let maxGap = (maxA div 6) * 5;
                gap0 = (if stackCur < minGap64 then minGap64 else stackCur);
                gap = (if gap0 > maxGap then maxGap else gap0);
                defaultDir = (if stackCur = Infinity then MmapBottomUp else MmapTopDown);
                topDownMin = maxA - gap - maxMmapRand64;
                maxRand = shrinkMaxRand topDownMin
            in
              (case mmapRand maxRand r of
                 Inl p \<Rightarrow> Inl p
               | Inr rnd \<Rightarrow>
                   let l = \<lparr>MinAddr = minA, MaxAddr = maxA,
                            BottomUpBase = RoundDown (maxA div 3 + rnd),
                            TopDownBase = RoundDown (maxA - gap - rnd),
                            DefaultDirection = defaultDir,
                            MaxStackRand = maxRand\<rparr>
                   in if \<not> Valid l then Inl PanicInvalidMmapLayout else Inr (Inr l)))"

section \<open>The control server's seccomp rules (runsc/boot/filter/config.go)\<close>

text \<open>
  Modelled from the spec: package seccomp is not among the sources. Rules are given per
  system call as a list of \<open>Rule\<close>s, each a tuple of argument matchers; of the matchers this
  policy uses \<open>MatchAny\<close> and \<open>EqualTo\<close>. Argument positions that a rule leaves out are
  not constrained. A call is allowed when its number has an entry and, where the entry lists
  rules, the arguments match one of them.
\<close>

datatype matcher = MatchAny | EqualTo "64 word"

type_synonym Rule = "matcher list"

type_synonym SyscallRules = "nat \<rightharpoonup> Rule list"

fun matcher_ok :: "matcher \<Rightarrow> 64 word \<Rightarrow> bool" where
  "matcher_ok MatchAny a = True"
| "matcher_ok (EqualTo v) a = (a = v)"

fun rule_matches :: "Rule \<Rightarrow> nat \<Rightarrow> (nat \<Rightarrow> 64 word) \<Rightarrow> bool" where
  "rule_matches [] i args = True"
| "rule_matches (m # ms) i args = (matcher_ok m (args i) \<and> rule_matches ms (Suc i) args)"

definition syscall_allowed :: "SyscallRules \<Rightarrow> nat \<Rightarrow> (nat \<Rightarrow> 64 word) \<Rightarrow> bool" where
  "syscall_allowed rules nr args =
     (case rules nr of
        None \<Rightarrow> False
      | Some [] \<Rightarrow> True
      | Some (r # rs) \<Rightarrow> list_ex (\<lambda>x. rule_matches x 0 args) (r # rs))"

text \<open>
  The system call numbers and socket constants of golang.org/x/sys/unix on linux/amd64.
\<close>

definition SYS_ACCEPT4 :: nat where
  "SYS_ACCEPT4 = 288"

definition SYS_LISTEN :: nat where
  "SYS_LISTEN = 50"

definition SYS_GETSOCKOPT :: nat where
  "SYS_GETSOCKOPT = 55"

definition SOL_SOCKET :: "64 word" where
  "SOL_SOCKET = 1"

definition SO_PEERCRED :: "64 word" where
  "SO_PEERCRED = 17"

text \<open>\<open>seccomp.EqualTo(fd)\<close> converts the \<open>int\<close> to \<open>uintptr\<close>.\<close>

definition controlServerFilters :: "int \<Rightarrow> SyscallRules" where
  "controlServerFilters fd =
     [SYS_ACCEPT4 \<mapsto> [[EqualTo (word_of_int fd)]],
      SYS_LISTEN \<mapsto> [[EqualTo (word_of_int fd), EqualTo 16]],
      SYS_GETSOCKOPT \<mapsto> [[MatchAny, EqualTo SOL_SOCKET, EqualTo SO_PEERCRED]]]"

section \<open>Dentry locking for rename (pkg/sentry/vfs/dentry.go)\<close>

text \<open>
  A dentry is identified by its address. The locks are \<open>vfs.mountMu\<close> and the mutex of
  each dentry. The state holds the set of locked mutexes and the sequence of lock
  operations performed. \<open>Lock\<close> on a locked mutex does not return: the result is \<open>None\<close>.
\<close>

datatype lock = MountMu | DentryMu nat

datatype lock_event = Acquire lock | Release lock

record lock_state =
  held :: "lock set"
  trace :: "lock_event list"

definition Lock :: "lock \<Rightarrow> lock_state \<Rightarrow> lock_state option" where
  "Lock l s =
     (if l \<in> held s then None
      else Some (s\<lparr>held := insert l (held s), trace := trace s @ [Acquire l]\<rparr>))"

definition Unlock :: "lock \<Rightarrow> lock_state \<Rightarrow> lock_state" where
  "Unlock l s = s\<lparr>held := held s - {l}, trace := trace s @ [Release l]\<rparr>"

text \<open>
  \<open>mntns.mountpoints\<close> is a Go map from dentries to \<open>uint32\<close> counts: a function that is 0
  on absent keys. \<open>to\<close> may be nil: \<open>None\<close>.
\<close>

definition PrepareRenameDentry ::
  "(nat \<Rightarrow> 32 word) \<Rightarrow> nat \<Rightarrow> nat option \<Rightarrow> lock_state \<Rightarrow> (errno option \<times> lock_state) option" where
  "PrepareRenameDentry mountpoints from to s =
     (case Lock MountMu s of
        None \<Rightarrow> None
      | Some s1 \<Rightarrow>
          if mountpoints from \<noteq> 0 then Some (Some EBUSY, Unlock MountMu s1)
          else
            (case to of
               None \<Rightarrow>
                 (case Lock (DentryMu from) s1 of
                    None \<Rightarrow> None
                  | Some s3 \<Rightarrow> Some (None, Unlock MountMu s3))
             | Some t \<Rightarrow>
                 if mountpoints t \<noteq> 0 then Some (Some EBUSY, Unlock MountMu s1)
                 else
                   (case Lock (DentryMu t) s1 of
                      None \<Rightarrow> None
                    | Some s2 \<Rightarrow>
                        (case Lock (DentryMu from) s2 of
                           None \<Rightarrow> None
                         | Some s3 \<Rightarrow> Some (None, Unlock MountMu s3)))))"

text \<open>The addresses of the dentries whose mutexes a sequence of operations acquires, in order.\<close>

fun dentry_acquisitions :: "lock_event list \<Rightarrow> nat list" where
  "dentry_acquisitions [] = []"
| "dentry_acquisitions (Acquire (DentryMu a) # es) = a # dentry_acquisitions es"
| "dentry_acquisitions (e # es) = dentry_acquisitions es"

definition no_mountpoints :: "nat \<Rightarrow> 32 word" where
  "no_mountpoints d = 0"

definition unlocked :: lock_state where
  "unlocked = \<lparr>held = {}, trace = []\<rparr>"

section \<open>The mount system call (pkg/sentry/syscalls/linux/sys_mount.go)\<close>

text \<open>
  Modelled from the spec: package pkg/abi/linux is not among the sources; the mount flags
  have the values of the Linux ABI.
\<close>

definition MS_RDONLY :: "64 word" where "MS_RDONLY = 0x1"
definition MS_NOSUID :: "64 word" where "MS_NOSUID = 0x2"
definition MS_NODEV :: "64 word" where "MS_NODEV = 0x4"
definition MS_NOEXEC :: "64 word" where "MS_NOEXEC = 0x8"
definition MS_REMOUNT :: "64 word" where "MS_REMOUNT = 0x20"
definition MS_NOATIME :: "64 word" where "MS_NOATIME = 0x400"
definition MS_NODIRATIME :: "64 word" where "MS_NODIRATIME = 0x800"
definition MS_BIND :: "64 word" where "MS_BIND = 0x1000"
definition MS_MOVE :: "64 word" where "MS_MOVE = 0x2000"
definition MS_REC :: "64 word" where "MS_REC = 0x4000"
definition MS_UNBINDABLE :: "64 word" where "MS_UNBINDABLE = 0x20000"
definition MS_PRIVATE :: "64 word" where "MS_PRIVATE = 0x40000"
definition MS_SLAVE :: "64 word" where "MS_SLAVE = 0x80000"
definition MS_SHARED :: "64 word" where "MS_SHARED = 0x100000"
definition MS_STRICTATIME :: "64 word" where "MS_STRICTATIME = 0x1000000"
definition MS_MGC_VAL :: "64 word" where "MS_MGC_VAL = 0xC0ED0000"
definition MS_MGC_MSK :: "64 word" where "MS_MGC_MSK = 0xffff0000"

text \<open>
  Modelled from the spec: package bits is not among the sources; a value is a power of two
  when clearing its lowest set bit leaves nothing.
\<close>

definition IsPowerOfTwo64 :: "64 word \<Rightarrow> bool" where
  "IsPowerOfTwo64 v = (v AND (v - 1) = 0)"

definition unsupported :: "64 word" where
  "unsupported = MS_REMOUNT OR MS_SLAVE OR MS_UNBINDABLE OR MS_MOVE OR MS_REC OR
                 MS_NODIRATIME OR MS_STRICTATIME"

definition propagationFlags :: "64 word" where
  "propagationFlags = MS_SHARED OR MS_PRIVATE OR MS_SLAVE OR MS_UNBINDABLE"

text \<open>
  What \<open>Mount\<close> depends on besides the flags: whether the caller has CAP\_SYS\_ADMIN in the
  mount namespace's user namespace, the errors (if any) of resolving the target and source
  paths and of copying in the source, type and data strings, and whether the data address
  is null.
\<close>

record mount_env =
  cap_sys_admin :: bool
  target_err :: "errno option"
  bind_source_err :: "errno option"
  source_err :: "errno option"
  fstype_err :: "errno option"
  dataAddr :: "64 word"
  data_err :: "errno option"

record MountOptions =
  NoATime :: bool
  NoExec :: bool
  NoDev :: bool
  NoSUID :: bool
  ReadOnly :: bool

text \<open>
  \<open>Mount\<close> either returns an error of its own or returns what one call into the VFS
  returns: \<open>BindAt\<close>, \<open>SetMountPropagationAt\<close> with the propagation flag, or \<open>MountAt\<close>
  with the options.
\<close>

datatype mount_outcome =
    Return errno
  | BindAt
  | SetMountPropagationAt "64 word"
  | MountAt MountOptions

definition Mount :: "mount_env \<Rightarrow> 64 word \<Rightarrow> mount_outcome" where
  "Mount t flags0 =
     (if \<not> cap_sys_admin t then Return EPERM
      else
        let flags = (if flags0 AND MS_MGC_MSK = MS_MGC_VAL then flags0 AND NOT MS_MGC_MSK
                     else flags0)
        in
          if flags AND unsupported \<noteq> 0 then Return EINVAL
          else
            (case target_err t of
               Some e \<Rightarrow> Return e
             | None \<Rightarrow>
                 if flags AND MS_BIND = MS_BIND then
                   (case bind_source_err t of
                      Some e \<Rightarrow> Return e
                    | None \<Rightarrow> BindAt)
                 else
                   let propFlag = flags AND propagationFlags in
                   if propFlag \<noteq> 0 then
                     (if \<not> IsPowerOfTwo64 propFlag then Return EINVAL
                      else SetMountPropagationAt propFlag)
                   else
                     (case source_err t of
                        Some e \<Rightarrow> Return e
                      | None \<Rightarrow>
                          (case fstype_err t of
                             Some e \<Rightarrow> Return e
                           | None \<Rightarrow>
                               (case (if dataAddr t \<noteq> 0 then data_err t else None) of
                                  Some e \<Rightarrow> Return e
                                | None \<Rightarrow>
                                    MountAt \<lparr>NoATime = (flags AND MS_NOATIME = MS_NOATIME),
                                             NoExec = (flags AND MS_NOEXEC = MS_NOEXEC),
                                             NoDev = (flags AND MS_NODEV = MS_NODEV),
                                             NoSUID = (flags AND MS_NOSUID = MS_NOSUID),
                                             ReadOnly = (flags AND MS_RDONLY = MS_RDONLY)\<rparr>)))))"

text \<open>The flags after the magic value of kernels before 2.4 has been removed.\<close>

definition strip_magic :: "64 word \<Rightarrow> 64 word" where
  "strip_magic flags0 =
     (if flags0 AND MS_MGC_MSK = MS_MGC_VAL then flags0 AND NOT MS_MGC_MSK else flags0)"

definition privileged :: mount_env where
  "privileged = \<lparr>cap_sys_admin = True, target_err = None, bind_source_err = None,
                 source_err = None, fstype_err = None, dataAddr = 0, data_err = None\<rparr>"

definition unprivileged :: mount_env where
  "unprivileged = \<lparr>cap_sys_admin = False, target_err = None, bind_source_err = None,
                   source_err = None, fstype_err = None, dataAddr = 0, data_err = None\<rparr>"

section \<open>The CPU count passed to the sandbox (runsc/sandbox/sandbox.go)\<close>

text \<open>
  The part of \<open>createSandboxProcess\<close> that computes the \<open>--cpu-num\<close> argument. The cgroup
  answers \<open>NumCPU\<close> and \<open>CPUQuota\<close> with an error or a value; the quota is a \<open>float64\<close>,
  taken here as the real number it denotes. \<open>int(math.Ceil(quota))\<close> is the ceiling when
  that fits an \<open>int\<close>; outside that range the conversion on amd64 gives the least \<open>int\<close>.
\<close>

record Cgroup =
  NumCPU :: "string + int"
  CPUQuota :: "string + real"

definition int_of_Ceil :: "real \<Rightarrow> int" where
  "int_of_Ceil q =
     (if - (2 ^ 63) \<le> \<lceil>q\<rceil> \<and> \<lceil>q\<rceil> < 2 ^ 63 then \<lceil>q\<rceil> else - (2 ^ 63))"

definition minCPUs :: int where
  "minCPUs = 2"

text \<open>
  The result is an error message, or the value given with \<open>--cpu-num\<close>; without a cgroup
  the argument is not passed at all (\<open>None\<close>).
\<close>

definition cpu_num_arg :: "bool \<Rightarrow> Cgroup option \<Rightarrow> string + int option" where
  "cpu_num_arg CPUNumFromQuota cg =
     (case cg of
        None \<Rightarrow> Inr None
      | Some c \<Rightarrow>
          (case NumCPU c of
             Inl err \<Rightarrow> Inl (''getting cpu count from cgroups: '' @ err)
           | Inr cpuNum \<Rightarrow>
               if CPUNumFromQuota then
                 (case CPUQuota c of
                    Inl err \<Rightarrow> Inl (''getting cpu quota from cgroups: '' @ err)
                  | Inr quota \<Rightarrow>
                      let n = int_of_Ceil quota in
                      if n > 0 then
                        let n' = (if n < minCPUs then minCPUs else n)
                        in if n' < cpuNum then Inr (Some n') else Inr (Some cpuNum)
                      else Inr (Some cpuNum))
               else Inr (Some cpuNum)))"

section \<open>Restoring a container (containerManager.Restore)\<close>

text \<open>
  A file passed to \<open>Restore\<close> is represented by what \<open>Stat\<close> answers for it: an error
  or the size. The environment gives the error (if any) of each step that can fail. The
  loader records the steps that have taken effect.
\<close>

record restore_file =
  file_stat :: "string + int"

record restore_env =
  dup_err :: "string option"
  platform_err :: "string option"
  memfile_err :: "string option"
  configure_err :: "string option"
  ProfileEnable :: bool
  seccomp_err :: "string option"
  load_err :: "string option"
  start_err :: "string option"

record loader =
  device_duplicated :: bool
  kernel_paused :: bool
  kernel_replaced :: bool
  pprof_initialized :: bool
  seccomp_installed :: bool
  state_loaded :: bool
  restore :: bool
  started :: bool

text \<open>
  The part of \<open>Restore\<close> after the switch on the number of files, for the state file
  \<open>specFile\<close>.
\<close>

definition Restore_from :: "restore_env \<Rightarrow> restore_file \<Rightarrow> loader \<Rightarrow> string option \<times> loader" where
  "Restore_from env specFile l0 =
     (let l1 = l0\<lparr>kernel_paused := True\<rparr> in
      case platform_err env of
        Some e \<Rightarrow> (Some (''creating platform: '' @ e), l1)
      | None \<Rightarrow>
      (case memfile_err env of
        Some e \<Rightarrow> (Some (''creating memory file: '' @ e), l1)
      | None \<Rightarrow>
      (let l2 = l1\<lparr>kernel_replaced := True\<rparr> in
       case configure_err env of
        Some e \<Rightarrow> (Some (''configuring filesystem restore: '' @ e), l2)
      | None \<Rightarrow>
      (case file_stat specFile of
        Inl e \<Rightarrow> (Some e, l2)
      | Inr sz \<Rightarrow>
          if sz = 0 then (Some ''file cannot be empty'', l2)
          else
            (let l3 = (if ProfileEnable env then l2\<lparr>pprof_initialized := True\<rparr> else l2) in
             case seccomp_err env of
               Some e \<Rightarrow> (Some e, l3)
             | None \<Rightarrow>
             (let l4 = l3\<lparr>seccomp_installed := True\<rparr> in
              case load_err env of
                Some e \<Rightarrow> (Some e, l4)
              | None \<Rightarrow>
              (let l5 = l4\<lparr>state_loaded := True, restore := True\<rparr> in
               case start_err env of
                 Some e \<Rightarrow> (Some (''starting sandbox: '' @ e), l5)
               | None \<Rightarrow> (None, l5\<lparr>started := True\<rparr>))))))))"

definition Restore :: "restore_env \<Rightarrow> restore_file list \<Rightarrow> loader \<Rightarrow> string option \<times> loader" where
  "Restore env files l =
     (let numFiles = length files in
      if numFiles = 2 then
        (case dup_err env of
           Some e \<Rightarrow> (Some (''failed to dup file: '' @ e), l)
         | None \<Rightarrow> Restore_from env (files ! 0) (l\<lparr>device_duplicated := True\<rparr>))
      else if numFiles = 1 then Restore_from env (files ! 0) l
      else if numFiles = 0 then (Some ''at least one file must be passed to Restore'', l)
      else (Some ''at most two files may be passed to Restore'', l))"

definition no_errors :: restore_env where
  "no_errors = \<lparr>dup_err = None, platform_err = None, memfile_err = None, configure_err = None,
                ProfileEnable = False, seccomp_err = None, load_err = None, start_err = None\<rparr>"

definition fresh_loader :: loader where
  "fresh_loader = \<lparr>device_duplicated = False, kernel_paused = False, kernel_replaced = False,
                   pprof_initialized = False, seccomp_installed = False, state_loaded = False,
                   restore = False, started = False\<rparr>"

section \<open>Destroying a sandbox (runsc/sandbox/sandbox.go)\<close>

text \<open>
  The host operating system is a state of type \<open>'h\<close> with the calls the code makes on it:
  \<open>os.Remove\<close>, \<open>unix.Kill\<close> (with signal 0 or SIGKILL), \<open>unix.Wait4\<close> (answering an
  error or the wait status) and the pause of 100 milliseconds between two polls. Each call
  returns its result and the new host state.
\<close>

datatype signal = SIG0 | SIGKILL

record 'h host =
  os_Remove :: "string \<Rightarrow> 'h \<Rightarrow> string option \<times> 'h"
  unix_Kill :: "int \<Rightarrow> signal \<Rightarrow> 'h \<Rightarrow> errno option \<times> 'h"
  unix_Wait4 :: "int \<Rightarrow> 'h \<Rightarrow> (string + int) \<times> 'h"
  backoff_wait :: "'h \<Rightarrow> 'h"

record Sandbox =
  ID :: string
  ControlAddress :: string
  Pid :: int
  child :: bool
  status :: int

datatype destroy_error = KillFailed errno | StopFailed string

definition IsRunning :: "'h host \<Rightarrow> Sandbox \<Rightarrow> 'h \<Rightarrow> bool \<times> 'h" where
  "IsRunning os s h =
     (if Pid s \<noteq> 0 then
        (case unix_Kill os (Pid s) SIG0 h of
           (None, h') \<Rightarrow> (True, h')
         | (Some e, h') \<Rightarrow> (False, h'))
      else (False, h))"

text \<open>
  \<open>backoff.Retry\<close> of the poll with a constant pause and a deadline of 5 seconds: the
  operation is tried once and then again after each pause; \<open>n\<close> is the number of pauses
  that fit before the deadline.
\<close>

fun Retry :: "'h host \<Rightarrow> Sandbox \<Rightarrow> nat \<Rightarrow> 'h \<Rightarrow> string option \<times> 'h" where
  "Retry os s 0 h =
     (case IsRunning os s h of
        (True, h') \<Rightarrow> (Some ''sandbox is still running'', h')
      | (False, h') \<Rightarrow> (None, h'))"
| "Retry os s (Suc n) h =
     (case IsRunning os s h of
        (True, h') \<Rightarrow> Retry os s n (backoff_wait os h')
      | (False, h') \<Rightarrow> (None, h'))"

definition waitForStopped :: "'h host \<Rightarrow> nat \<Rightarrow> Sandbox \<Rightarrow> 'h \<Rightarrow> string option \<times> Sandbox \<times> 'h" where
  "waitForStopped os n s h =
     (if child s then
        (if Pid s = 0 then (None, s, h)
         else
           (case unix_Wait4 os (Pid s) h of
              (Inl e, h') \<Rightarrow> (Some (''error waiting the sandbox process: '' @ e), s, h')
            | (Inr st, h') \<Rightarrow> (None, s\<lparr>status := st, Pid := 0\<rparr>, h')))
      else
        (case Retry os s n h of (e, h') \<Rightarrow> (e, s, h')))"

text \<open>
  The first step of \<open>destroy\<close>: the control file is removed only if the address is not
  empty and does not start with a zero byte (an abstract socket); an error is only logged.
\<close>

definition remove_control_file :: "'h host \<Rightarrow> Sandbox \<Rightarrow> 'h \<Rightarrow> 'h" where
  "remove_control_file os s h =
     (if length (ControlAddress s) > 0 \<and> ControlAddress s ! 0 \<noteq> CHR 0x00
      then snd (os_Remove os (ControlAddress s) h)
      else h)"

definition Sandbox_destroy ::
  "'h host \<Rightarrow> nat \<Rightarrow> Sandbox \<Rightarrow> 'h \<Rightarrow> destroy_error option \<times> Sandbox \<times> 'h" where
  "Sandbox_destroy os n s h =
     (let h1 = remove_control_file os s h;
          pid = Pid s
      in
        if pid \<noteq> 0 then
          (case unix_Kill os pid SIGKILL h1 of
             (e, h2) \<Rightarrow>
               if e \<noteq> None \<and> e \<noteq> Some ESRCH then (Some (KillFailed (the e)), s, h2)
               else
                 (case waitForStopped os n s h2 of
                    (Some err, s', h3) \<Rightarrow> (Some (StopFailed err), s', h3)
                  | (None, s', h3) \<Rightarrow> (None, s', h3)))
        else (None, s, h1))"

text \<open>
  A small host for examples: the state is the set of running processes and the control
  files present; SIGKILL ends a process at once.
\<close>

definition simple_host :: "(int set \<times> string set) host" where
  "simple_host =
     \<lparr>os_Remove = (\<lambda>p h. if p \<in> snd h then (None, (fst h, snd h - {p}))
                            else (Some ''no such file or directory'', h)),
      unix_Kill = (\<lambda>pid sig h.
                     if pid \<in> fst h
                     then (None, if sig = SIGKILL then (fst h - {pid}, snd h) else h)
                     else (Some ESRCH, h)),
      unix_Wait4 = (\<lambda>pid h. (Inr 9, h)),
      backoff_wait = (\<lambda>h. h)\<rparr>"

definition example_sandbox :: Sandbox where
  "example_sandbox =
     \<lparr>ID = ''sb'', ControlAddress = ''/run/sb.sock'', Pid = 42, child = False, status = 0\<rparr>"

text \<open>
  Polling as the claim describes it. \<open>poll_state os pid h i\<close> is the host state before poll
  number \<open>i\<close>, when the polls before it were followed by a pause. The process has been
  polled until gone, within \<open>n\<close> pauses, when some poll \<open>k \<le> n\<close> is answered with an error
  to signal 0, every poll before it having been answered with nil; \<open>h1\<close> is the host state
  after that poll.
\<close>

fun poll_state :: "'h host \<Rightarrow> int \<Rightarrow> 'h \<Rightarrow> nat \<Rightarrow> 'h" where
  "poll_state os pid h 0 = h"
| "poll_state os pid h (Suc i) =
     poll_state os pid (backoff_wait os (snd (unix_Kill os pid SIG0 h))) i"

definition polled_until_gone :: "'h host \<Rightarrow> int \<Rightarrow> nat \<Rightarrow> 'h \<Rightarrow> 'h \<Rightarrow> bool" where
  "polled_until_gone os pid n h h1 =
     (\<exists>k\<in>{..n}.
        (\<forall>i\<in>{..<k}. fst (unix_Kill os pid SIG0 (poll_state os pid h i)) = None) \<and>
        fst (unix_Kill os pid SIG0 (poll_state os pid h k)) \<noteq> None \<and>
        h1 = snd (unix_Kill os pid SIG0 (poll_state os pid h k)))"

text \<open>
  A host on which the pid of the sandbox process, once that process has been killed, belongs
  to a process the caller may not signal. The state says whether the sandbox process has
  been killed.
\<close>

definition stale_pid_host :: "bool host" where
  "stale_pid_host =
     \<lparr>os_Remove = (\<lambda>p h. (Some ''no such file or directory'', h)),
      unix_Kill = (\<lambda>pid sig h. if h then (Some EPERM, h) else (None, sig = SIGKILL)),
      unix_Wait4 = (\<lambda>pid h. (Inr 9, h)),
      backoff_wait = (\<lambda>h. h)\<rparr>"

section \<open>Properties of the AIO context\<close>

lemma fresh_context_simp:
  "fresh_context e i =
     (\<lparr>requestReady = Some 0, results = [], maxOutstanding = e, outstanding = 0, dead = False\<rparr>,
      (\<lambda>_. make_chan 0)(0 := make_chan 1))"
  by (simp add: fresh_context_def newAIOContext_def empty_manager_def)

lemma word32_succ_unat: "(x::32 word) < y \<Longrightarrow> unat (x + 1) = Suc (unat x)"
proof -
  assume "x < y"
  then have "unat x < unat y" by (simp add: word_less_nat_alt)
  moreover have "unat y < 2 ^ 32" using unsigned_less [of y] by simp
  ultimately have "unat x + 1 < 2 ^ 32" by simp
  then show ?thesis by (simp add: unat_word_ariths)
qed

lemma word32_succ_nonzero: "(x::32 word) < y \<Longrightarrow> x + 1 \<noteq> 0"
proof
  assume lt: "x < y" and z: "x + 1 = 0"
  from word32_succ_unat [OF lt] z show False by simp
qed

lemma prepare_times_ok:
  "\<not> dead c \<Longrightarrow> unat (outstanding c) + n \<le> unat (maxOutstanding c) \<Longrightarrow>
   prepare_times n c = (replicate n None, c\<lparr>outstanding := outstanding c + word_of_nat n\<rparr>)"
proof (induction n arbitrary: c)
  case 0
  then show ?case by simp
next
  case (Suc n)
  from Suc.prems have lt: "outstanding c < maxOutstanding c"
    by (simp add: word_less_nat_alt)
  let ?c' = "c\<lparr>outstanding := outstanding c + 1\<rparr>"
  have P: "Prepare c = (None, ?c')"
    using Suc.prems(1) lt by (simp add: Prepare_def not_le)
  have u: "unat (outstanding ?c') = Suc (unat (outstanding c))"
    using lt by (simp add: word32_succ_unat)
  have "prepare_times n ?c' =
          (replicate n None, ?c'\<lparr>outstanding := outstanding ?c' + word_of_nat n\<rparr>)"
    using Suc.prems u by (intro Suc.IH) auto
  then show ?case using P by (simp add: add.assoc)
qed

lemma prepare_times_snoc:
  "prepare_times (Suc n) c =
     (case prepare_times n c of (es, c') \<Rightarrow>
        (case Prepare c' of (e, c'') \<Rightarrow> (es @ [e], c'')))"
proof (induction n arbitrary: c)
  case 0
  show ?case by (simp split: prod.splits)
next
  case (Suc n)
  obtain e c' where P: "Prepare c = (e, c')" by (cases "Prepare c")
  obtain es c'' where T: "prepare_times n c' = (es, c'')" by (cases "prepare_times n c'")
  obtain e2 c3 where P2: "Prepare c'' = (e2, c3)" by (cases "Prepare c''")
  have I: "prepare_times (Suc n) c' = (es @ [e2], c3)"
    using Suc.IH [of c'] T P2 by simp
  have L: "prepare_times (Suc (Suc n)) c = (e # es @ [e2], c3)"
    by (subst prepare_times.simps(2)) (simp only: P I prod.case)
  have R: "prepare_times (Suc n) c = (e # es, c'')"
    using P T by simp
  show ?case unfolding L R by (simp add: P2)
qed

lemma prepare_fills_context:
  "prepare_times (unat events) (fst (fresh_context events ident)) =
     (replicate (unat events) None, (fst (fresh_context events ident))\<lparr>outstanding := events\<rparr>)"
proof -
  let ?c = "fst (fresh_context events ident) :: 'a AIOContext"
  have "prepare_times (unat events) ?c =
          (replicate (unat events) None, ?c\<lparr>outstanding := outstanding ?c + word_of_nat (unat events)\<rparr>)"
    by (rule prepare_times_ok) (simp_all add: fresh_context_simp)
  then show ?thesis by (simp add: fresh_context_simp)
qed

text \<open>
  C3. \<open>Prepare\<close> returns EINVAL on a dead context (before looking at the capacity), EAGAIN
  when \<open>outstanding \<ge> maxOutstanding\<close>, and otherwise returns nil with \<open>outstanding\<close>
  one higher (without wrap-around). \<open>maxOutstanding\<close> is the \<open>events\<close> value given to
  \<open>newAIOContext\<close>: on a new context exactly \<open>events\<close> calls succeed and the next one
  returns EAGAIN; with \<open>events = 8\<close> the ninth call returns EAGAIN.
\<close>

theorem Prepare_spec:
  fixes c :: "'a AIOContext" and a :: "'a aioManager"
  shows
  "(dead c \<longrightarrow> Prepare c = (Some EINVAL, c)) \<and>
   (\<not> dead c \<and> maxOutstanding c \<le> outstanding c \<longrightarrow> Prepare c = (Some EAGAIN, c)) \<and>
   (\<not> dead c \<and> outstanding c < maxOutstanding c \<longrightarrow>
      Prepare c = (None, c\<lparr>outstanding := outstanding c + 1\<rparr>) \<and>
      unat (outstanding (snd (Prepare c))) = unat (outstanding c) + 1) \<and>
   (contexts a ident = None \<longrightarrow>
      snd (newAIOContext a events ident) \<and>
      map_option maxOutstanding (contexts (fst (newAIOContext a events ident)) ident) = Some events) \<and>
   fst (prepare_times (Suc (unat events)) (fst (fresh_context events ident) :: 'a AIOContext)) =
     replicate (unat events) None @ [Some EAGAIN] \<and>
   fst (prepare_times 9 (fst (fresh_context 8 ident) :: 'a AIOContext)) =
     replicate 8 None @ [Some EAGAIN]"
proof -
  have general: "fst (prepare_times (Suc (unat e)) (fst (fresh_context e ident) :: 'a AIOContext)) =
     replicate (unat e) None @ [Some EAGAIN]" for e
    unfolding prepare_times_snoc prepare_fills_context
    by (simp add: Prepare_def fresh_context_simp)
  have nine: "(9::nat) = Suc (unat (8 :: 32 word))" by simp
  have "fst (prepare_times 9 (fst (fresh_context 8 ident) :: 'a AIOContext)) =
     replicate 8 None @ [Some EAGAIN]"
    unfolding nine using general [of 8] by simp
  moreover have "\<not> dead c \<and> outstanding c < maxOutstanding c \<longrightarrow>
      Prepare c = (None, c\<lparr>outstanding := outstanding c + 1\<rparr>) \<and>
      unat (outstanding (snd (Prepare c))) = unat (outstanding c) + 1"
    by (auto simp: Prepare_def word32_succ_unat)
  moreover have "contexts a ident = None \<longrightarrow>
      snd (newAIOContext a events ident) \<and>
      map_option maxOutstanding (contexts (fst (newAIOContext a events ident)) ident) = Some events"
    by (simp add: newAIOContext_def)
  moreover have "dead c \<longrightarrow> Prepare c = (Some EINVAL, c)"
    by (simp add: Prepare_def)
  moreover have "\<not> dead c \<and> maxOutstanding c \<le> outstanding c \<longrightarrow> Prepare c = (Some EAGAIN, c)"
    by (auto simp: Prepare_def)
  ultimately show ?thesis using general [of events] by blast
qed

theorem Prepare_spec_witness:
  "Prepare \<lparr>requestReady = None, results = [()], maxOutstanding = 8, outstanding = 0, dead = True\<rparr>
     = (Some EINVAL,
        \<lparr>requestReady = None, results = [()], maxOutstanding = 8, outstanding = 0, dead = True\<rparr>) \<and>
   Prepare \<lparr>requestReady = Some 0, results = [()], maxOutstanding = 8, outstanding = 8, dead = False\<rparr>
     = (Some EAGAIN,
        \<lparr>requestReady = Some 0, results = [()], maxOutstanding = 8, outstanding = 8, dead = False\<rparr>) \<and>
   Prepare \<lparr>requestReady = Some 0, results = [()], maxOutstanding = 8, outstanding = 3, dead = False\<rparr>
     = (None,
        \<lparr>requestReady = Some 0, results = [()], maxOutstanding = 8, outstanding = 4, dead = False\<rparr>) \<and>
   snd (newAIOContext (empty_manager :: unit aioManager) 8 0) \<and>
   fst (prepare_times 9 (fst (fresh_context 8 0 :: unit aio_state))) =
     replicate 8 None @ [Some EAGAIN]"
proof -
  let ?a = "empty_manager :: unit aioManager"
  have n: "contexts ?a 0 = None" by (simp add: empty_manager_def)
  have "Prepare \<lparr>requestReady = None, results = [()], maxOutstanding = 8, outstanding = 0, dead = True\<rparr>
     = (Some EINVAL,
        \<lparr>requestReady = None, results = [()], maxOutstanding = 8, outstanding = 0, dead = True\<rparr>)"
    using Prepare_spec [where c = "\<lparr>requestReady = None, results = [()], maxOutstanding = 8,
                             outstanding = 0, dead = True\<rparr>"
                    and a = ?a and ident = 0 and events = 8]
    by simp
  moreover have "Prepare \<lparr>requestReady = Some 0, results = [()], maxOutstanding = 8, outstanding = 8, dead = False\<rparr>
     = (Some EAGAIN,
        \<lparr>requestReady = Some 0, results = [()], maxOutstanding = 8, outstanding = 8, dead = False\<rparr>)"
    using Prepare_spec [where c = "\<lparr>requestReady = Some 0, results = [()], maxOutstanding = 8,
                             outstanding = 8, dead = False\<rparr>"
                    and a = ?a and ident = 0 and events = 8]
    by simp
  moreover have "Prepare \<lparr>requestReady = Some 0, results = [()], maxOutstanding = 8, outstanding = 3, dead = False\<rparr>
     = (None,
        \<lparr>requestReady = Some 0, results = [()], maxOutstanding = 8, outstanding = 4, dead = False\<rparr>)
     \<and> snd (newAIOContext ?a 8 0)
     \<and> fst (prepare_times 9 (fst (fresh_context 8 0 :: unit aio_state))) =
         replicate 8 None @ [Some EAGAIN]"
    using n Prepare_spec [where c = "\<lparr>requestReady = Some 0, results = [()], maxOutstanding = 8,
                             outstanding = 3, dead = False\<rparr>"
                    and a = ?a and ident = 0 and events = 8]
    by simp
  ultimately show ?thesis by blast
qed

lemma one_completed_simp:
  "one_completed =
     (\<lparr>requestReady = Some 0, results = [()], maxOutstanding = 8, outstanding = 1, dead = False\<rparr>,
      (\<lambda>_. make_chan 0)(0 := \<lparr>chan_len = 1, chan_cap = 1, chan_closed = False\<rparr>))"
  by (simp add: one_completed_def fresh_context_simp Prepare_def FinishRequest_def try_send_def
        make_chan_def)

text \<open>
  C4 as stated fails: after one \<open>Prepare\<close> and one \<open>FinishRequest\<close> the counter is 1, and
  \<open>Drain\<close> returns with the counter at 0.
\<close>

theorem Drain_changes_outstanding:
  "outstanding (fst one_completed) = 1 \<and>
   Drain one_completed =
     Inr ((fst one_completed)\<lparr>outstanding := 0, results := []\<rparr>, snd one_completed) \<and>
   outstanding ((fst one_completed)\<lparr>outstanding := 0, results := []\<rparr>)
     \<noteq> outstanding (fst one_completed)"
  by (simp add: one_completed_simp Drain_def checkForDone_def)

text \<open>
  C4, amended. \<open>Drain\<close> does not leave \<open>outstanding\<close> alone. With \<open>outstanding = 0\<close> it
  returns at once and changes nothing. Otherwise let \<open>n\<close> be the number of completed results
  as the code counts it: the length of the list converted to \<open>uint32\<close>, that is the length
  modulo \<open>2 ^ 32\<close>, and the length itself when that is below \<open>2 ^ 32\<close>. \<open>Drain\<close> panics
  with "outstanding is going negative" exactly when \<open>outstanding\<close> is not 0 and is below
  \<open>n\<close>. When \<open>n \<le> outstanding\<close> it empties the list and lowers \<open>outstanding\<close> by \<open>n\<close>,
  so for a list no longer than \<open>outstanding\<close> the number of requests still pending is what it
  was; if moreover the context is dead and \<open>outstanding\<close> has reached 0, the notification
  channel, when the reference is not nil and the channel is open, is closed and the reference
  set to nil.
\<close>

theorem Drain_spec:
  fixes c :: "'a AIOContext"
  shows
  "(outstanding c = 0 \<longrightarrow> Drain (c, h) = Inr (c, h)) \<and>
   (outstanding c \<noteq> 0 \<and> outstanding c < word_of_nat (length (results c)) \<longrightarrow>
      Drain (c, h) = Inl PanicOutstandingNegative) \<and>
   (outstanding c \<noteq> 0 \<and> word_of_nat (length (results c)) \<le> outstanding c \<and>
    \<not> (dead c \<and> outstanding c = word_of_nat (length (results c))) \<longrightarrow>
      Drain (c, h) =
        Inr (c\<lparr>outstanding := outstanding c - word_of_nat (length (results c)), results := []\<rparr>, h)) \<and>
   (outstanding c \<noteq> 0 \<and> dead c \<and> outstanding c = word_of_nat (length (results c)) \<and>
    requestReady c = Some a \<and> \<not> chan_closed (h a) \<longrightarrow>
      Drain (c, h) =
        Inr (c\<lparr>outstanding := 0, results := [], requestReady := None\<rparr>,
             h(a := (h a)\<lparr>chan_closed := True\<rparr>))) \<and>
   (length (results c) \<le> unat (outstanding c) \<longrightarrow>
      word_of_nat (length (results c)) \<le> outstanding c \<and>
      unat (outstanding c - word_of_nat (length (results c))) =
        unat (outstanding c) - length (results c)) \<and>
   (Drain (c, h) = Inl PanicOutstandingNegative \<longleftrightarrow>
      outstanding c \<noteq> 0 \<and> outstanding c < word_of_nat (length (results c))) \<and>
   unat (word_of_nat (length (results c)) :: 32 word) = length (results c) mod 2 ^ 32 \<and>
   (length (results c) < 2 ^ 32 \<longrightarrow>
      (outstanding c < word_of_nat (length (results c)) \<longleftrightarrow>
         unat (outstanding c) < length (results c)))"
proof -
  let ?n = "length (results c)"
  let ?sz = "word_of_nat ?n :: 32 word"
  have trunc: "unat ?sz = ?n mod 2 ^ 32"
    by (simp add: unat_of_nat take_bit_eq_mod)
  have count: "?n \<le> unat (outstanding c) \<longrightarrow>
      ?sz \<le> outstanding c \<and> unat (outstanding c - ?sz) = unat (outstanding c) - ?n"
  proof
    assume le: "?n \<le> unat (outstanding c)"
    have "unat (outstanding c) < 2 ^ 32" using unsigned_less [of "outstanding c"] by simp
    with le have small: "?n < 2 ^ 32" by simp
    then have u: "unat ?sz = ?n" by (simp add: unat_of_nat take_bit_nat_eq_self)
    with le have w: "?sz \<le> outstanding c" by (simp add: word_le_nat_alt)
    then have "unat (outstanding c - ?sz) = unat (outstanding c) - unat ?sz"
      by (rule unat_sub)
    with u w show "?sz \<le> outstanding c \<and> unat (outstanding c - ?sz) = unat (outstanding c) - ?n"
      by simp
  qed
  have short: "?n < 2 ^ 32 \<longrightarrow> (outstanding c < ?sz \<longleftrightarrow> unat (outstanding c) < ?n)"
    using trunc by (simp add: word_less_nat_alt)
  have zero: "outstanding c = 0 \<longrightarrow> Drain (c, h) = Inr (c, h)"
    by (simp add: Drain_def)
  have neg: "outstanding c \<noteq> 0 \<and> outstanding c < ?sz \<longrightarrow>
      Drain (c, h) = Inl PanicOutstandingNegative"
    by (simp add: Drain_def)
  have only: "Drain (c, h) = Inl PanicOutstandingNegative \<longrightarrow>
      outstanding c \<noteq> 0 \<and> outstanding c < ?sz"
    by (auto simp: Drain_def checkForDone_def close_chan_def Let_def
          split: if_splits option.splits sum.splits)
  have alive: "outstanding c \<noteq> 0 \<and> ?sz \<le> outstanding c \<and>
    \<not> (dead c \<and> outstanding c = ?sz) \<longrightarrow>
      Drain (c, h) = Inr (c\<lparr>outstanding := outstanding c - ?sz, results := []\<rparr>, h)"
    by (auto simp: Drain_def checkForDone_def Let_def)
  have closing: "outstanding c \<noteq> 0 \<and> dead c \<and> outstanding c = ?sz \<and>
    requestReady c = Some a \<and> \<not> chan_closed (h a) \<longrightarrow>
      Drain (c, h) =
        Inr (c\<lparr>outstanding := 0, results := [], requestReady := None\<rparr>,
             h(a := (h a)\<lparr>chan_closed := True\<rparr>))"
    by (auto simp: Drain_def checkForDone_def close_chan_def Let_def)
  from zero neg only alive closing count trunc short show ?thesis by blast
qed

theorem Drain_spec_witness:
  "Drain (\<lparr>requestReady = Some 0, results = [()], maxOutstanding = 8, outstanding = 0, dead = False\<rparr>,
          \<lambda>_. make_chan 1)
     = Inr (\<lparr>requestReady = Some 0, results = [()], maxOutstanding = 8, outstanding = 0, dead = False\<rparr>,
            \<lambda>_. make_chan 1) \<and>
   Drain (\<lparr>requestReady = Some 0, results = [(), ()], maxOutstanding = 8, outstanding = 1, dead = False\<rparr>,
          \<lambda>_. make_chan 1)
     = Inl PanicOutstandingNegative \<and>
   Drain (\<lparr>requestReady = Some 0, results = [(), ()], maxOutstanding = 8, outstanding = 5, dead = True\<rparr>,
          \<lambda>_. make_chan 1)
     = Inr (\<lparr>requestReady = Some 0, results = [], maxOutstanding = 8, outstanding = 3, dead = True\<rparr>,
            \<lambda>_. make_chan 1) \<and>
   Drain (\<lparr>requestReady = Some 0, results = [(), ()], maxOutstanding = 8, outstanding = 2, dead = True\<rparr>,
          \<lambda>_. make_chan 1)
     = Inr (\<lparr>requestReady = None, results = [], maxOutstanding = 8, outstanding = 0, dead = True\<rparr>,
            (\<lambda>_. make_chan 1)(0 := (make_chan 1)\<lparr>chan_closed := True\<rparr>))"
proof -
  let ?h = "\<lambda>_::nat. make_chan 1"
  have "Drain (\<lparr>requestReady = Some 0, results = [()], maxOutstanding = 8, outstanding = 0, dead = False\<rparr>, ?h)
     = Inr (\<lparr>requestReady = Some 0, results = [()], maxOutstanding = 8, outstanding = 0, dead = False\<rparr>, ?h)"
    using Drain_spec [where c = "\<lparr>requestReady = Some 0, results = [()], maxOutstanding = 8,
                                  outstanding = 0, dead = False\<rparr>" and h = ?h and a = 0]
    by simp
  moreover have "Drain (\<lparr>requestReady = Some 0, results = [(), ()], maxOutstanding = 8, outstanding = 1, dead = False\<rparr>, ?h)
     = Inl PanicOutstandingNegative"
    using Drain_spec [where c = "\<lparr>requestReady = Some 0, results = [(), ()], maxOutstanding = 8,
                                  outstanding = 1, dead = False\<rparr>" and h = ?h and a = 0]
    by simp
  moreover have "Drain (\<lparr>requestReady = Some 0, results = [(), ()], maxOutstanding = 8, outstanding = 5, dead = True\<rparr>, ?h)
     = Inr (\<lparr>requestReady = Some 0, results = [], maxOutstanding = 8, outstanding = 3, dead = True\<rparr>, ?h)"
    using Drain_spec [where c = "\<lparr>requestReady = Some 0, results = [(), ()], maxOutstanding = 8,
                                  outstanding = 5, dead = True\<rparr>" and h = ?h and a = 0]
    by simp
  moreover have "Drain (\<lparr>requestReady = Some 0, results = [(), ()], maxOutstanding = 8, outstanding = 2, dead = True\<rparr>, ?h)
     = Inr (\<lparr>requestReady = None, results = [], maxOutstanding = 8, outstanding = 0, dead = True\<rparr>,
            ?h(0 := (make_chan 1)\<lparr>chan_closed := True\<rparr>))"
    using Drain_spec [where c = "\<lparr>requestReady = Some 0, results = [(), ()], maxOutstanding = 8,
                                  outstanding = 2, dead = True\<rparr>" and h = ?h and a = 0]
    by (simp add: make_chan_def)
  ultimately show ?thesis by blast
qed

subsection \<open>The notification channel is closed once\<close>

lemma aio_inv_fresh: "aio_inv (fresh_context e i)"
  by (simp add: fresh_context_simp aio_inv_def make_chan_def)

lemma aio_step_inv:
  assumes "aio_inv s" and "aio_step x s = Inr s'"
  shows "aio_inv s'"
proof (cases s)
  case (Pair c h)
  show ?thesis
  proof (cases "requestReady c")
    case None
    with assms Pair show ?thesis
      by (cases x)
         (auto simp: aio_inv_def Prepare_def FinishRequest_def try_send_def PopRequest_def
            CancelPendingRequest_def Drain_def destroy_def checkForDone_def close_chan_def
            split: if_splits list.splits sum.splits)
  next
    case (Some a)
    with assms Pair have a0: "a = 0" and opn: "\<not> chan_closed (h 0)"
      and nd: "\<not> (dead c \<and> outstanding c = 0)"
      by (auto simp: aio_inv_def)
    show ?thesis
    proof (cases x)
      case CallPrepare
      then show ?thesis using assms Pair Some a0 opn nd
        by (auto simp: aio_inv_def Prepare_def word32_succ_nonzero not_le split: if_splits)
    next
      case (CallFinishRequest d)
      then show ?thesis using assms Pair Some a0 opn nd
        by (auto simp: aio_inv_def FinishRequest_def try_send_def split: if_splits)
    next
      case CallPopRequest
      then show ?thesis using assms Pair Some a0 opn nd
        by (auto simp: PopRequest_def checkForDone_def close_chan_def aio_inv_def
              split: list.splits if_splits sum.splits)
    next
      case CallCancelPendingRequest
      then show ?thesis using assms Pair Some a0 opn nd
        by (auto simp: CancelPendingRequest_def checkForDone_def close_chan_def aio_inv_def
              split: if_splits)
    next
      case CallDrain
      then show ?thesis using assms Pair Some a0 opn nd
        by (auto simp: Drain_def Let_def checkForDone_def close_chan_def aio_inv_def
              split: if_splits)
    next
      case CallDestroy
      then show ?thesis using assms Pair Some a0 opn nd
        by (auto simp: destroy_def checkForDone_def close_chan_def aio_inv_def
              split: if_splits)
    qed
  qed
qed

lemma aio_step_panic:
  assumes "aio_inv s" and "aio_step x s = Inl p"
  shows "p = PanicOutstandingNegative \<or> p = PanicCloseNilChannel"
proof (cases s)
  case (Pair c h)
  show ?thesis using assms Pair
    by (cases x; cases "requestReady c")
       (auto simp: aio_inv_def Prepare_def FinishRequest_def try_send_def PopRequest_def
            CancelPendingRequest_def Drain_def destroy_def checkForDone_def close_chan_def Let_def
            split: if_splits list.splits sum.splits)
qed

lemma aio_run_inv:
  "aio_inv s \<Longrightarrow> aio_run xs s = (p, s') \<Longrightarrow>
     aio_inv s' \<and> p \<noteq> Some PanicCloseClosedChannel \<and> p \<noteq> Some PanicSendClosedChannel"
proof (induction xs arbitrary: s)
  case Nil
  then show ?case by simp
next
  case (Cons x xs)
  show ?case
  proof (cases "aio_step x s")
    case (Inl q)
    with Cons.prems aio_step_panic [OF Cons.prems(1) Inl] show ?thesis by auto
  next
    case (Inr t)
    with Cons.prems aio_step_inv [OF Cons.prems(1) Inr] Cons.IH [of t] show ?thesis by auto
  qed
qed

lemma aio_step_closed_mono:
  assumes "aio_step x (c, h) = Inr (c', h')" and "chan_closed (h a)"
  shows "chan_closed (h' a)"
  using assms
  by (cases x)
     (auto simp: Prepare_def FinishRequest_def try_send_def PopRequest_def
        CancelPendingRequest_def Drain_def destroy_def checkForDone_def close_chan_def Let_def
        split: if_splits list.splits sum.splits option.splits)

lemma aio_run_closed_mono:
  "chan_closed (snd s a) \<Longrightarrow> chan_closed (snd (snd (aio_run xs s)) a)"
proof (induction xs arbitrary: s)
  case Nil
  then show ?case by simp
next
  case (Cons x xs)
  show ?case
  proof (cases "aio_step x s")
    case (Inl q)
    with Cons.prems show ?thesis by simp
  next
    case (Inr t)
    obtain c h where s: "s = (c, h)" by (cases s)
    obtain c' h' where t: "t = (c', h')" by (cases t)
    from aio_step_closed_mono [of x c h c' h' a] Inr s t Cons.prems
    have "chan_closed (snd t a)" by simp
    from Cons.IH [OF this] Inr show ?thesis by simp
  qed
qed

text \<open>
  C1. Take a context as \<open>newAIOContext\<close> creates it and run any sequence of \<open>Prepare\<close>,
  \<open>FinishRequest\<close>, \<open>PopRequest\<close>, \<open>CancelPendingRequest\<close>, \<open>Drain\<close> and \<open>destroy\<close>
  calls (the run stops if a call panics). In the state reached, the notification channel is
  closed exactly when the context is dead with nothing outstanding, and exactly then
  \<open>WaitChannel\<close> returns nil; no call ever closes the channel a second time or sends on it
  after the close; and once closed it stays closed, with \<open>WaitChannel\<close> nil, whatever is
  called afterwards. (A \<open>destroy\<close> called again after the close does not close the channel:
  it panics on the nil reference.)
\<close>

theorem requestReady_closed_once:
  assumes "aio_run calls (fresh_context events ident) = (p, (c, h))"
  shows "(chan_closed (h 0) \<longleftrightarrow> dead c \<and> outstanding c = 0) \<and>
         WaitChannel c = (if dead c \<and> outstanding c = 0 then None else Some 0) \<and>
         p \<noteq> Some PanicCloseClosedChannel \<and> p \<noteq> Some PanicSendClosedChannel \<and>
         (chan_closed (h 0) \<longrightarrow>
            (\<forall>more. chan_closed (snd (snd (aio_run more (c, h))) 0) \<and>
                    WaitChannel (fst (snd (aio_run more (c, h)))) = None))"
proof -
  from aio_run_inv [OF aio_inv_fresh assms]
  have inv: "aio_inv (c, h)" and p: "p \<noteq> Some PanicCloseClosedChannel"
      "p \<noteq> Some PanicSendClosedChannel"
    by simp_all
  have later: "chan_closed (snd (snd (aio_run more (c, h))) 0) \<and>
               WaitChannel (fst (snd (aio_run more (c, h)))) = None"
    if cl: "chan_closed (h 0)" for more
  proof -
    obtain q c' h' where r: "aio_run more (c, h) = (q, (c', h'))"
      by (metis prod.exhaust)
    from aio_run_inv [OF inv r] have inv': "aio_inv (c', h')" by simp
    from aio_run_closed_mono [of "(c, h)" 0 more] cl r have "chan_closed (h' 0)" by simp
    with inv' r show ?thesis
      by (auto simp: aio_inv_def WaitChannel_def split: option.splits)
  qed
  from inv have "(chan_closed (h 0) \<longleftrightarrow> dead c \<and> outstanding c = 0) \<and>
         WaitChannel c = (if dead c \<and> outstanding c = 0 then None else Some 0)"
    by (auto simp: aio_inv_def WaitChannel_def split: option.splits)
  with p later show ?thesis by blast
qed

theorem requestReady_closed_once_witness:
  "aio_run [CallPrepare, CallFinishRequest (), CallDestroy] (fresh_context 8 0) =
     (None,
      \<lparr>requestReady = Some 0, results = [()], maxOutstanding = 8, outstanding = 1, dead = True\<rparr>,
      (\<lambda>_. make_chan 0)(0 := \<lparr>chan_len = 1, chan_cap = 1, chan_closed = False\<rparr>)) \<and>
   aio_run [CallPrepare, CallFinishRequest (), CallDestroy, CallPopRequest] (fresh_context 8 0) =
     (None,
      \<lparr>requestReady = None, results = [], maxOutstanding = 8, outstanding = 0, dead = True\<rparr>,
      (\<lambda>_. make_chan 0)(0 := \<lparr>chan_len = 1, chan_cap = 1, chan_closed = True\<rparr>)) \<and>
   fst (aio_run [CallDestroy]
      (\<lparr>requestReady = None, results = [] :: unit list, maxOutstanding = 8, outstanding = 0, dead = True\<rparr>,
       (\<lambda>_. make_chan 0)(0 := \<lparr>chan_len = 1, chan_cap = 1, chan_closed = True\<rparr>)))
     = Some PanicCloseNilChannel \<and>
   WaitChannel (fst (snd (aio_run [CallDestroy]
      (\<lparr>requestReady = None, results = [] :: unit list, maxOutstanding = 8, outstanding = 0, dead = True\<rparr>,
       (\<lambda>_. make_chan 0)(0 := \<lparr>chan_len = 1, chan_cap = 1, chan_closed = True\<rparr>))))) = None"
proof -
  let ?c1 = "\<lparr>requestReady = Some 0, results = [()], maxOutstanding = 8, outstanding = 1,
              dead = True\<rparr>"
  let ?h1 = "(\<lambda>_. make_chan 0)(0 := \<lparr>chan_len = 1, chan_cap = 1, chan_closed = False\<rparr>)"
  let ?c2 = "\<lparr>requestReady = None, results = [] :: unit list, maxOutstanding = 8, outstanding = 0,
              dead = True\<rparr>"
  let ?h2 = "(\<lambda>_. make_chan 0)(0 := \<lparr>chan_len = 1, chan_cap = 1, chan_closed = True\<rparr>)"
  have r1: "aio_run [CallPrepare, CallFinishRequest (), CallDestroy] (fresh_context 8 0) =
              (None, (?c1, ?h1))"
    by (simp add: fresh_context_simp Prepare_def FinishRequest_def try_send_def make_chan_def
          destroy_def checkForDone_def)
  have r2: "aio_run [CallPrepare, CallFinishRequest (), CallDestroy, CallPopRequest]
              (fresh_context 8 0) = (None, (?c2, ?h2))"
    by (simp add: fresh_context_simp Prepare_def FinishRequest_def try_send_def make_chan_def
          destroy_def checkForDone_def PopRequest_def close_chan_def)
  have r3: "fst (aio_run [CallDestroy] (?c2, ?h2)) = Some PanicCloseNilChannel"
    by (simp add: destroy_def checkForDone_def close_chan_def)
  from requestReady_closed_once [OF r1] have "WaitChannel ?c1 = Some 0" by simp
  from requestReady_closed_once [OF r2]
  have "\<forall>more. chan_closed (snd (snd (aio_run more (?c2, ?h2))) 0) \<and>
                WaitChannel (fst (snd (aio_run more (?c2, ?h2)))) = None"
    by simp
  then have r4: "WaitChannel (fst (snd (aio_run [CallDestroy] (?c2, ?h2)))) = None"
    by blast
  from r1 r2 r3 r4 show ?thesis by blast
qed

section \<open>Properties of the amd64 mmap layout\<close>

lemmas mmap_consts =
  PageSize_def maxAddr64_def maxStackRand64_def maxMmapRand64_def minGap64_def
  preferredTopDownAllocMin_def preferredAllocationGap_def preferredTopDownBaseMin_def
  minMmapRand64_def Infinity_def

lemmas mmap_eval =
  NewMmapLayout_def RoundUp_def RoundDown_def shrinkMaxRand_def mmapRand_def Valid_def Let_def
  mmap_consts

lemma shrinkMaxRand_bounds:
  "minMmapRand64 \<le> shrinkMaxRand t \<and> shrinkMaxRand t \<le> maxMmapRand64"
  unfolding shrinkMaxRand_def Let_def minMmapRand64_def maxMmapRand64_def PageSize_def
  by (simp; unat_arith)



lemma mmapRand_ok: "mmapRand (shrinkMaxRand t) r = Inr (RoundDown r)"
proof -
  from shrinkMaxRand_bounds [of t]
  have lo: "2 ^ 38 \<le> shrinkMaxRand t" and hi: "shrinkMaxRand t \<le> 2 ^ 40"
    by (simp_all add: minMmapRand64_def maxMmapRand64_def PageSize_def)
  from hi have "uint (shrinkMaxRand t) \<le> 2 ^ 40"
    by (simp add: word_le_def)
  then have small: "uint (shrinkMaxRand t) < 2 ^ 63" by simp
  have "sint (shrinkMaxRand t) = signed_take_bit 63 (uint (shrinkMaxRand t))"
    by (simp add: sint_uint)
  also have "\<dots> = uint (shrinkMaxRand t)"
  proof (rule signed_take_bit_int_eq_self)
    have "- (2 ^ 63) \<le> (0::int)" by simp
    also have "(0::int) \<le> uint (shrinkMaxRand t)" by simp
    finally show "- (2 ^ 63) \<le> uint (shrinkMaxRand t)" .
    show "uint (shrinkMaxRand t) < 2 ^ 63" by (rule small)
  qed
  finally have eq: "sint (shrinkMaxRand t) = uint (shrinkMaxRand t)" .
  from lo have "0 < uint (shrinkMaxRand t)"
    by (simp add: word_le_def)
  with eq show ?thesis by (simp add: mmapRand_def)
qed



text \<open>
  What \<open>NewMmapLayout\<close> can do. It returns EINVAL exactly when rounding \<open>min\<close> up wraps
  around or the rounded \<open>min\<close> is above the clamped, rounded \<open>max\<close>, and no other error.
  The only panic is that of the final sanity check (the argument of \<open>Int63n\<close> is always
  positive). A layout that is returned satisfies \<open>Valid\<close>, so \<open>MinAddr \<le> MaxAddr\<close>; its
  bounds are the rounded \<open>min\<close> and \<open>max\<close>.
\<close>

lemma NewMmapLayout_cases:
  "(NewMmapLayout min0 max0 cur r = Inr (Inl EINVAL) \<longleftrightarrow>
      \<not> snd (RoundUp min0) \<or>
      fst (RoundUp min0) > RoundDown (if max0 > maxAddr64 then maxAddr64 else max0)) \<and>
   (NewMmapLayout min0 max0 cur r = Inr (Inl e) \<longrightarrow> e = EINVAL) \<and>
   (NewMmapLayout min0 max0 cur r = Inl p \<longrightarrow> p = PanicInvalidMmapLayout) \<and>
   (NewMmapLayout min0 max0 cur r = Inr (Inr l) \<longrightarrow>
      Valid l \<and> MinAddr l \<le> MaxAddr l \<and>
      snd (RoundUp min0) \<and> MinAddr l = fst (RoundUp min0) \<and>
      MaxAddr l = RoundDown (if max0 > maxAddr64 then maxAddr64 else max0) \<and>
      minMmapRand64 \<le> MaxStackRand l \<and> MaxStackRand l \<le> maxMmapRand64)"
proof -
  obtain minA ok where ru: "RoundUp min0 = (minA, ok)" by (cases "RoundUp min0")
  let ?maxA = "RoundDown (if max0 > maxAddr64 then maxAddr64 else max0)"
  show ?thesis
  proof (cases "ok \<and> \<not> minA > ?maxA")
    case False
    then have "NewMmapLayout min0 max0 cur r = Inr (Inl EINVAL)"
      by (auto simp: NewMmapLayout_def ru Let_def)
    with False ru show ?thesis by auto
  next
    case True
    define maxGap where "maxGap = (?maxA div 6) * 5"
    define gap0 where "gap0 = (if cur < minGap64 then minGap64 else cur)"
    define gap where "gap = (if gap0 > maxGap then maxGap else gap0)"
    define mr where "mr = shrinkMaxRand (?maxA - gap - maxMmapRand64)"
    define lay where "lay = \<lparr>MinAddr = minA, MaxAddr = ?maxA,
                            BottomUpBase = RoundDown (?maxA div 3 + RoundDown r),
                            TopDownBase = RoundDown (?maxA - gap - RoundDown r),
                            DefaultDirection = (if cur = Infinity then MmapBottomUp else MmapTopDown),
                            MaxStackRand = mr\<rparr>"
    have N: "NewMmapLayout min0 max0 cur r =
               (if \<not> Valid lay then Inl PanicInvalidMmapLayout else Inr (Inr lay))"
      using True
      unfolding NewMmapLayout_def ru Let_def lay_def mr_def gap_def gap0_def maxGap_def
      by (simp add: mmapRand_ok)
    have b: "minMmapRand64 \<le> mr \<and> mr \<le> maxMmapRand64"
      unfolding mr_def by (rule shrinkMaxRand_bounds)
    show ?thesis
    proof (cases "Valid lay")
      case False
      with N True ru show ?thesis by auto
    next
      case v: True
      then have "MinAddr lay \<le> MaxAddr lay"
        by (auto simp: Valid_def split: if_splits)
      with N v b True ru show ?thesis by (auto simp: lay_def)
    qed
  qed
qed

lemma NewMmapLayout_examples:
  "NewMmapLayout 0x10000 0x7ffffffff000 0x800000 0x12345678 =
     Inr (Inr \<lparr>MinAddr = 0x10000, MaxAddr = 0x7ffffffff000,
               BottomUpBase = 46912801533952, TopDownBase = 140719868846080,
               DefaultDirection = MmapTopDown, MaxStackRand = 1099511627776\<rparr>)"
  "NewMmapLayout 0x30000 0x20000 0x800000 0 = Inr (Inl EINVAL)"
  "\<not> snd (RoundUp 0xfffffffffffff001)"
  by (simp_all add: mmap_eval)

text \<open>
  In a large address space the sanity check cannot fail: with \<open>max\<close> of at least 8 TiB,
  \<open>min\<close> of at most 64 GiB and a draw below \<open>2 ^ 40\<close> (the largest bound ever passed to
  \<open>rand.Int63n\<close>) a valid layout is returned, whatever the stack limit.
\<close>

lemma and_not_mask_diff: "(x::64 word) AND NOT (mask 12) = x - take_bit 12 x"
proof -
  have z: "NOT x AND take_bit 12 x = 0"
    by (rule bit_word_eqI) (auto simp add: bit_simps)
  have "x - take_bit 12 x = x AND NOT (take_bit 12 x)"
    using z by (rule disjunctive_diff_eq_and_not)
  also have "\<dots> = x AND NOT (mask 12)"
    by (rule bit_word_eqI) (auto simp add: bit_simps)
  finally show ?thesis by simp
qed

lemma unat_RoundDown: "unat (RoundDown x) = unat x - unat x mod 4096"
proof -
  have m: "(PageSize - 1 :: 64 word) = mask 12"
    by (simp add: PageSize_def mask_eq_exp_minus_1)
  have le: "take_bit 12 x \<le> x"
    by (simp add: word_le_nat_alt unsigned_take_bit_eq take_bit_nat_eq_self_iff take_bit_nat_less_eq_self del: take_bit_numeral_numeral)
  have "unat (RoundDown x) = unat (x - take_bit 12 x)"
    unfolding RoundDown_def m and_not_mask_diff ..
  also have "\<dots> = unat x - unat (take_bit 12 x)"
    using le by (rule unat_sub)
  also have "unat (take_bit 12 x) = unat x mod 4096"
    by (simp add: take_bit_eq_mod unat_mod)
  finally show ?thesis .
qed

lemma RoundDown_le: "unat (RoundDown x) \<le> unat x"
  by (simp add: unat_RoundDown)

lemma RoundDown_gt: "unat x < unat (RoundDown x) + 4096"
proof -
  have "unat x mod 4096 < 4096" by simp
  moreover have "unat x mod 4096 \<le> unat x" by (rule mod_less_eq_dividend)
  ultimately show ?thesis unfolding unat_RoundDown by arith
qed

lemma RoundDown_ge_aligned:
  assumes "k mod 4096 = 0" and "k \<le> unat x"
  shows "k \<le> unat (RoundDown x)"
proof -
  have "unat x - unat x mod 4096 = unat x div 4096 * 4096"
    by (simp add: minus_mod_eq_div_mult)
  moreover from assms have "k div 4096 * 4096 = k" by auto
  moreover from assms have "k div 4096 \<le> unat x div 4096" by (simp add: div_le_mono)
  then have "k div 4096 * 4096 \<le> unat x div 4096 * 4096" by simp
  ultimately show ?thesis unfolding unat_RoundDown by simp
qed

lemma RoundUp_small:
  assumes "unat min0 \<le> 2 ^ 36"
  shows "snd (RoundUp min0)" and "unat (fst (RoundUp min0)) \<le> 2 ^ 36 + 4095"
proof -
  have u: "unat (min0 + PageSize - 1) = unat min0 + 4095"
    using assms by (simp add: PageSize_def unat_word_ariths)
  have "unat min0 + 4095 < unat (RoundDown (min0 + PageSize - 1)) + 4096"
    using RoundDown_gt [of "min0 + PageSize - 1"] by (simp add: u)
  then show "snd (RoundUp min0)"
    by (simp add: RoundUp_def Let_def word_le_nat_alt)
  show "unat (fst (RoundUp min0)) \<le> 2 ^ 36 + 4095"
    using RoundDown_le [of "min0 + PageSize - 1"] assms by (simp add: RoundUp_def Let_def u)
qed

lemma maxAddr_large:
  assumes "2 ^ 43 \<le> unat max0"
  defines "maxA \<equiv> RoundDown (if max0 > maxAddr64 then maxAddr64 else max0)"
  shows "2 ^ 43 \<le> unat maxA" and "unat maxA < 2 ^ 47"
proof -
  let ?m = "if max0 > maxAddr64 then maxAddr64 else max0"
  have m: "unat maxAddr64 = 2 ^ 47 - 4096"
    by (simp add: maxAddr64_def PageSize_def)
  have lo: "2 ^ 43 \<le> unat ?m" using assms(1) by (simp add: m)
  have hi: "unat ?m < 2 ^ 47" by (simp add: m word_less_nat_alt)
  show "2 ^ 43 \<le> unat maxA"
    unfolding maxA_def using lo by (intro RoundDown_ge_aligned) simp_all
  show "unat maxA < 2 ^ 47"
    unfolding maxA_def using RoundDown_le [of ?m] hi by linarith
qed

lemma layout_Valid_large:
  fixes minA maxA gap rnd :: "64 word"
  assumes minA: "unat minA \<le> 2 ^ 36 + 4095"
    and lo: "2 ^ 43 \<le> unat maxA" and hi: "unat maxA < 2 ^ 47"
    and gap: "gap \<le> (maxA div 6) * 5"
    and rnd: "unat rnd < 2 ^ 40"
  shows "Valid \<lparr>MinAddr = minA, MaxAddr = maxA,
                  BottomUpBase = RoundDown (maxA div 3 + rnd),
                  TopDownBase = RoundDown (maxA - gap - rnd),
                  DefaultDirection = d, MaxStackRand = mr\<rparr>"
proof -
  define A where "A = unat maxA"
  have d6: "unat (maxA div 6) = A div 6" by (simp add: unat_div A_def)
  have d3: "unat (maxA div 3) = A div 3" by (simp add: unat_div A_def)
  have A: "2 ^ 43 \<le> A" "A < 2 ^ 47" using lo hi by (simp_all add: A_def)
  have "A div 6 * 5 < 2 ^ 64" using A by simp
  moreover have "unat ((maxA div 6) * 5) = unat (maxA div 6) * unat (5 :: 64 word) mod 2 ^ LENGTH(64)"
    by (rule unat_word_ariths)
  ultimately have mg: "unat ((maxA div 6) * 5) = A div 6 * 5"
    by (simp add: d6)
  have G: "unat gap \<le> A div 6 * 5"
    using gap by (simp add: word_le_nat_alt mg)
  have GA: "unat gap \<le> A" using G by simp
  have s1: "unat (maxA - gap) = A - unat gap"
    using GA by (simp add: unat_sub word_le_nat_alt A_def)
  have A6: "2 ^ 43 div 6 \<le> A div (6::nat)" using A(1) by (rule div_le_mono)
  have R1: "unat rnd \<le> A - unat gap" using G rnd A A6 by simp
  have s2: "unat (maxA - gap - rnd) = A - unat gap - unat rnd"
    using R1 by (simp add: unat_sub word_le_nat_alt s1)
  have "A div 3 + unat rnd < 2 ^ 64" using A rnd by simp
  moreover have "unat (maxA div 3 + rnd) = (unat (maxA div 3) + unat rnd) mod 2 ^ LENGTH(64)"
    by (rule unat_word_ariths)
  ultimately have b: "unat (maxA div 3 + rnd) = A div 3 + unat rnd"
    by (simp add: d3)
  have A3: "2 ^ 43 div 3 \<le> A div (3::nat)" using A(1) by (rule div_le_mono)
  have b_hi: "A div 3 + unat rnd \<le> A" using A rnd A3 by simp
  have b_lo: "2 ^ 36 + 4095 + 4096 \<le> A div 3 + unat rnd" using A3 by simp
  have t_lo: "2 ^ 36 + 4095 + 4096 \<le> A - unat gap - unat rnd" using G rnd A6 by simp
  have B1: "unat (RoundDown (maxA div 3 + rnd)) \<le> A"
    using RoundDown_le [of "maxA div 3 + rnd"] b b_hi by simp
  have B2: "unat minA \<le> unat (RoundDown (maxA div 3 + rnd))"
    using RoundDown_gt [of "maxA div 3 + rnd"] b b_lo minA by simp
  have T1: "unat (RoundDown (maxA - gap - rnd)) \<le> A"
    using RoundDown_le [of "maxA - gap - rnd"] s2 by simp
  have T2: "unat minA \<le> unat (RoundDown (maxA - gap - rnd))"
    using RoundDown_gt [of "maxA - gap - rnd"] s2 t_lo minA by simp
  have M: "unat minA \<le> A" using minA A by simp
  show ?thesis
    using B1 B2 T1 T2 M
    by (simp add: Valid_def word_less_nat_alt A_def [symmetric] not_less)
qed

lemma NewMmapLayout_large:
  assumes max0: "2 ^ 43 \<le> unat max0" and min0: "unat min0 \<le> 2 ^ 36" and r: "unat r < 2 ^ 40"
  shows "\<exists>l. NewMmapLayout min0 max0 stackCur r = Inr (Inr l) \<and> Valid l"
proof -
  define minA where "minA = fst (RoundUp min0)"
  define maxA where "maxA = RoundDown (if max0 > maxAddr64 then maxAddr64 else max0)"
  define gap0 where "gap0 = (if stackCur < minGap64 then minGap64 else stackCur)"
  define gap where "gap = (if gap0 > (maxA div 6) * 5 then (maxA div 6) * 5 else gap0)"
  define maxRand where "maxRand = shrinkMaxRand (maxA - gap - maxMmapRand64)"
  define l where "l = \<lparr>MinAddr = minA, MaxAddr = maxA,
                  BottomUpBase = RoundDown (maxA div 3 + RoundDown r),
                  TopDownBase = RoundDown (maxA - gap - RoundDown r),
                  DefaultDirection = (if stackCur = Infinity then MmapBottomUp else MmapTopDown),
                  MaxStackRand = maxRand\<rparr>"
  have ru: "RoundUp min0 = (minA, True)"
    using RoundUp_small(1) [OF min0] by (simp add: minA_def prod_eq_iff)
  have minA: "unat minA \<le> 2 ^ 36 + 4095"
    using RoundUp_small(2) [OF min0] by (simp add: minA_def)
  have lo: "2 ^ 43 \<le> unat maxA" and hi: "unat maxA < 2 ^ 47"
    using maxAddr_large [OF max0] by (simp_all add: maxA_def)
  have le: "\<not> minA > maxA"
    using minA lo by (simp add: word_less_nat_alt)
  have gap: "gap \<le> (maxA div 6) * 5"
    by (simp add: gap_def not_less)
  have rnd: "unat (RoundDown r) < 2 ^ 40"
    using RoundDown_le [of r] r by linarith
  have v: "Valid l"
    unfolding l_def by (rule layout_Valid_large [OF minA lo hi gap rnd])
  have "NewMmapLayout min0 max0 stackCur r = Inr (Inr l)"
    unfolding NewMmapLayout_def ru
    using le v
    by (simp add: Let_def mmapRand_ok maxA_def [symmetric] gap0_def [symmetric]
        gap_def [symmetric] maxRand_def [symmetric] l_def [symmetric])
  with v show ?thesis by blast
qed


section \<open>Properties of the control server's seccomp rules\<close>

lemmas sysno_defs = SYS_ACCEPT4_def SYS_LISTEN_def SYS_GETSOCKOPT_def

text \<open>
  C6. For every controller socket \<open>fd\<close>, \<open>controlServerFilters fd\<close> has entries for
  exactly three system calls, accept4, listen and getsockopt, each with a single rule:
  accept4 with first argument \<open>fd\<close>, listen with arguments \<open>(fd, 16)\<close>, getsockopt with any
  socket, level SOL\_SOCKET and option SO\_PEERCRED. So the calls it allows are exactly these.
\<close>

theorem controlServerFilters_exact:
  "dom (controlServerFilters fd) = {SYS_ACCEPT4, SYS_LISTEN, SYS_GETSOCKOPT} \<and>
   card (dom (controlServerFilters fd)) = 3 \<and>
   controlServerFilters fd SYS_ACCEPT4 = Some [[EqualTo (word_of_int fd)]] \<and>
   controlServerFilters fd SYS_LISTEN = Some [[EqualTo (word_of_int fd), EqualTo 16]] \<and>
   controlServerFilters fd SYS_GETSOCKOPT =
     Some [[MatchAny, EqualTo SOL_SOCKET, EqualTo SO_PEERCRED]] \<and>
   (syscall_allowed (controlServerFilters fd) nr args \<longleftrightarrow>
      (nr = SYS_ACCEPT4 \<and> args 0 = word_of_int fd) \<or>
      (nr = SYS_LISTEN \<and> args 0 = word_of_int fd \<and> args 1 = 16) \<or>
      (nr = SYS_GETSOCKOPT \<and> args 1 = SOL_SOCKET \<and> args 2 = SO_PEERCRED))"
proof -
  have d: "dom (controlServerFilters fd) = {SYS_ACCEPT4, SYS_LISTEN, SYS_GETSOCKOPT}"
    by (auto simp: controlServerFilters_def split: if_splits)
  have c: "card {SYS_ACCEPT4, SYS_LISTEN, SYS_GETSOCKOPT} = 3"
    by (simp add: sysno_defs)
  have e: "controlServerFilters fd SYS_ACCEPT4 = Some [[EqualTo (word_of_int fd)]] \<and>
   controlServerFilters fd SYS_LISTEN = Some [[EqualTo (word_of_int fd), EqualTo 16]] \<and>
   controlServerFilters fd SYS_GETSOCKOPT =
     Some [[MatchAny, EqualTo SOL_SOCKET, EqualTo SO_PEERCRED]]"
    by (simp add: controlServerFilters_def sysno_defs)
  have a: "syscall_allowed (controlServerFilters fd) nr args \<longleftrightarrow>
      (nr = SYS_ACCEPT4 \<and> args 0 = word_of_int fd) \<or>
      (nr = SYS_LISTEN \<and> args 0 = word_of_int fd \<and> args 1 = 16) \<or>
      (nr = SYS_GETSOCKOPT \<and> args 1 = SOL_SOCKET \<and> args 2 = SO_PEERCRED)"
    by (auto simp: syscall_allowed_def controlServerFilters_def sysno_defs numeral_2_eq_2)
  from d c e a show ?thesis by simp
qed

theorem controlServerFilters_exact_witness:
  "syscall_allowed (controlServerFilters 5) SYS_LISTEN ((\<lambda>_. 0)(0 := 5, 1 := 16)) \<and>
   \<not> syscall_allowed (controlServerFilters 5) SYS_LISTEN ((\<lambda>_. 0)(0 := 5, 1 := 17)) \<and>
   \<not> syscall_allowed (controlServerFilters 5) SYS_ACCEPT4 ((\<lambda>_. 0)(0 := 6)) \<and>
   syscall_allowed (controlServerFilters 5) SYS_GETSOCKOPT ((\<lambda>_. 0)(0 := 9, 1 := 1, 2 := 17)) \<and>
   \<not> syscall_allowed (controlServerFilters 5) 1 ((\<lambda>_. 0)(0 := 5))"
  using controlServerFilters_exact [of 5 SYS_LISTEN "(\<lambda>_. 0)(0 := 5, 1 := 16)"]
    controlServerFilters_exact [of 5 SYS_LISTEN "(\<lambda>_. 0)(0 := 5, 1 := 17)"]
    controlServerFilters_exact [of 5 SYS_ACCEPT4 "(\<lambda>_. 0)(0 := 6)"]
    controlServerFilters_exact [of 5 SYS_GETSOCKOPT "(\<lambda>_. 0)(0 := 9, 1 := 1, 2 := 17)"]
    controlServerFilters_exact [of 5 1 "(\<lambda>_. 0)(0 := 5)"]
  by (simp add: sysno_defs SOL_SOCKET_def SO_PEERCRED_def)

section \<open>Properties of the rename locking\<close>

text \<open>
  C7 as stated fails: the order of the two acquisitions does not depend on the addresses.
  With \<open>from\<close> at address 1 and \<open>to\<close> at address 2 the mutex at the higher address is
  taken first; with the addresses exchanged the one at the lower address is taken first.
\<close>

theorem PrepareRenameDentry_not_address_order:
  "PrepareRenameDentry no_mountpoints 1 (Some 2) unlocked =
     Some (None, \<lparr>held = {DentryMu 1, DentryMu 2},
                  trace = [Acquire MountMu, Acquire (DentryMu 2), Acquire (DentryMu 1),
                           Release MountMu]\<rparr>) \<and>
   dentry_acquisitions [Acquire MountMu, Acquire (DentryMu 2), Acquire (DentryMu 1),
                        Release MountMu] = [2, 1] \<and>
   \<not> sorted [2, 1 :: nat] \<and>
   PrepareRenameDentry no_mountpoints 2 (Some 1) unlocked =
     Some (None, \<lparr>held = {DentryMu 2, DentryMu 1},
                  trace = [Acquire MountMu, Acquire (DentryMu 1), Acquire (DentryMu 2),
                           Release MountMu]\<rparr>)"
  by (simp add: PrepareRenameDentry_def Lock_def Unlock_def no_mountpoints_def unlocked_def
        insert_Diff_if)

text \<open>
  C7, amended. Let none of \<open>vfs.mountMu\<close>, \<open>from.mu\<close> and \<open>to.mu\<close> be locked when
  \<open>PrepareRenameDentry\<close> is called with \<open>to\<close> not nil. If neither dentry is a mount point
  of the namespace, the call succeeds having locked \<open>to.mu\<close> first and \<open>from.mu\<close> second,
  both while holding \<open>vfs.mountMu\<close>, which it releases last; no addresses are compared. If
  \<open>from\<close> or \<open>to\<close> is a mount point it returns EBUSY and the set of locked mutexes is
  what it was: neither dentry mutex has been acquired.
\<close>

theorem PrepareRenameDentry_order:
  assumes "MountMu \<notin> held s" and "DentryMu from \<notin> held s" and "DentryMu t \<notin> held s"
    and "from \<noteq> t"
  shows "(mountpoints from = 0 \<and> mountpoints t = 0 \<longrightarrow>
            PrepareRenameDentry mountpoints from (Some t) s =
              Some (None, s\<lparr>held := held s \<union> {DentryMu t, DentryMu from},
                             trace := trace s @ [Acquire MountMu, Acquire (DentryMu t),
                                                 Acquire (DentryMu from), Release MountMu]\<rparr>)) \<and>
         (mountpoints from \<noteq> 0 \<or> mountpoints t \<noteq> 0 \<longrightarrow>
            PrepareRenameDentry mountpoints from (Some t) s =
              Some (Some EBUSY, s\<lparr>trace := trace s @ [Acquire MountMu, Release MountMu]\<rparr>))"
proof -
  have h1: "insert MountMu (held s) - {MountMu} = held s"
    using assms(1) by auto
  have h2: "insert (DentryMu from) (insert (DentryMu t) (insert MountMu (held s))) - {MountMu}
              = held s \<union> {DentryMu t, DentryMu from}"
    using assms(1) by auto
  show ?thesis
    using assms
    by (auto simp: PrepareRenameDentry_def Lock_def Unlock_def h1 h2)
qed

theorem PrepareRenameDentry_order_witness:
  "PrepareRenameDentry no_mountpoints 1 (Some 2) unlocked =
     Some (None, unlocked\<lparr>held := held unlocked \<union> {DentryMu 2, DentryMu 1},
                  trace := trace unlocked @ [Acquire MountMu, Acquire (DentryMu 2),
                           Acquire (DentryMu 1), Release MountMu]\<rparr>) \<and>
   PrepareRenameDentry (no_mountpoints(2 := 1)) 1 (Some 2) unlocked =
     Some (Some EBUSY, unlocked\<lparr>trace := trace unlocked @ [Acquire MountMu, Release MountMu]\<rparr>)"
proof -
  have a: "MountMu \<notin> held unlocked" "DentryMu 1 \<notin> held unlocked" "DentryMu 2 \<notin> held unlocked"
    "(1::nat) \<noteq> 2"
    by (simp_all add: unlocked_def)
  from PrepareRenameDentry_order [OF a, of no_mountpoints]
    PrepareRenameDentry_order [OF a, of "no_mountpoints(2 := 1)"]
  show ?thesis by (simp add: no_mountpoints_def)
qed

section \<open>Properties of the mount system call\<close>

lemmas ms_defs = MS_RDONLY_def MS_NOSUID_def MS_NODEV_def MS_NOEXEC_def MS_REMOUNT_def
  MS_NOATIME_def MS_NODIRATIME_def MS_BIND_def MS_MOVE_def MS_REC_def MS_UNBINDABLE_def
  MS_PRIVATE_def MS_SLAVE_def MS_SHARED_def MS_STRICTATIME_def MS_MGC_VAL_def MS_MGC_MSK_def

lemma and_pow2: "(f::64 word) AND 2 ^ n = (if bit f n then 2 ^ n else 0)"
  by (rule bit_word_eqI) (auto simp: bit_simps)

lemma ms_pow2:
  "MS_UNBINDABLE = 2 ^ 17" "MS_PRIVATE = 2 ^ 18" "MS_SLAVE = 2 ^ 19" "MS_SHARED = 2 ^ 20"
  by (simp_all add: ms_defs)

lemma prop_cases:
  assumes "(f::64 word) AND unsupported = 0"
  shows "f AND propagationFlags = 0 \<or> f AND propagationFlags = MS_PRIVATE \<or>
         f AND propagationFlags = MS_SHARED \<or> f AND propagationFlags = MS_SHARED OR MS_PRIVATE"
proof -
  from assms have "f AND MS_SLAVE = 0 \<and> f AND MS_UNBINDABLE = 0"
    by (simp add: unsupported_def bit.conj_disj_distrib or_eq_0_iff)
  then have "f AND propagationFlags = (f AND MS_SHARED) OR (f AND MS_PRIVATE)"
    by (simp add: propagationFlags_def bit.conj_disj_distrib)
  then show ?thesis
    unfolding ms_pow2 and_pow2 by (cases "bit f 20"; cases "bit f 18") simp_all
qed

lemma pow2_single:
  "IsPowerOfTwo64 MS_PRIVATE" "IsPowerOfTwo64 MS_SHARED" "\<not> IsPowerOfTwo64 (MS_SHARED OR MS_PRIVATE)"
  "MS_PRIVATE \<noteq> 0" "MS_SHARED \<noteq> 0" "MS_SHARED OR MS_PRIVATE \<noteq> 0"
  by (simp_all add: IsPowerOfTwo64_def ms_defs)


lemma unsupported_iff:
  "f AND unsupported \<noteq> 0 \<longleftrightarrow>
     f AND MS_REMOUNT \<noteq> 0 \<or> f AND MS_SLAVE \<noteq> 0 \<or> f AND MS_UNBINDABLE \<noteq> 0 \<or>
     f AND MS_MOVE \<noteq> 0 \<or> f AND MS_REC \<noteq> 0 \<or> f AND MS_NODIRATIME \<noteq> 0 \<or>
     f AND MS_STRICTATIME \<noteq> 0"
  by (simp add: unsupported_def bit.conj_disj_distrib or_eq_0_iff)

lemma Mount_unfold:
  "Mount t flags0 =
     (if \<not> cap_sys_admin t then Return EPERM
      else if strip_magic flags0 AND unsupported \<noteq> 0 then Return EINVAL
      else (case target_err t of
              Some e \<Rightarrow> Return e
            | None \<Rightarrow>
                if strip_magic flags0 AND MS_BIND = MS_BIND then
                  (case bind_source_err t of Some e \<Rightarrow> Return e | None \<Rightarrow> BindAt)
                else if strip_magic flags0 AND propagationFlags \<noteq> 0 then
                  (if \<not> IsPowerOfTwo64 (strip_magic flags0 AND propagationFlags) then Return EINVAL
                   else SetMountPropagationAt (strip_magic flags0 AND propagationFlags))
                else
                  (case source_err t of
                     Some e \<Rightarrow> Return e
                   | None \<Rightarrow>
                       (case fstype_err t of
                          Some e \<Rightarrow> Return e
                        | None \<Rightarrow>
                            (case (if dataAddr t \<noteq> 0 then data_err t else None) of
                               Some e \<Rightarrow> Return e
                             | None \<Rightarrow>
                                 MountAt \<lparr>NoATime = (strip_magic flags0 AND MS_NOATIME = MS_NOATIME),
                                          NoExec = (strip_magic flags0 AND MS_NOEXEC = MS_NOEXEC),
                                          NoDev = (strip_magic flags0 AND MS_NODEV = MS_NODEV),
                                          NoSUID = (strip_magic flags0 AND MS_NOSUID = MS_NOSUID),
                                          ReadOnly = (strip_magic flags0 AND MS_RDONLY = MS_RDONLY)\<rparr>)))))"
  unfolding Mount_def strip_magic_def Let_def by (rule refl)

lemma Mount_reaches_propagation:
  assumes "Mount t flags = SetMountPropagationAt p"
  shows "(p = MS_SHARED \<or> p = MS_PRIVATE) \<and> p = strip_magic flags AND propagationFlags \<and>
         strip_magic flags AND unsupported = 0"
proof -
  let ?f = "strip_magic flags"
  from assms have u: "?f AND unsupported = 0"
    and p: "p = ?f AND propagationFlags" and nz: "p \<noteq> 0" and pw: "IsPowerOfTwo64 p"
    by (auto simp: Mount_unfold split: if_splits option.splits)
  from prop_cases [OF u] p nz pw pow2_single(3) have "p = MS_SHARED \<or> p = MS_PRIVATE"
    by auto
  with p u show ?thesis by simp
qed

text \<open>
  C10, amended. For a caller that has CAP\_SYS\_ADMIN in the user namespace of its mount
  namespace (any other caller gets EPERM before the flags are looked at), \<open>Mount\<close> returns
  EINVAL whenever the flags, after stripping the magic of kernels before 2.4, include any of
  MS\_REMOUNT, MS\_SLAVE, MS\_UNBINDABLE, MS\_MOVE, MS\_REC, MS\_NODIRATIME or MS\_STRICTATIME.
  So whenever \<open>SetMountPropagationAt\<close> is reached, the propagation flag passed on is
  MS\_SHARED alone or MS\_PRIVATE alone, and neither MS\_SLAVE nor MS\_UNBINDABLE was set.
  MS\_SHARED together with MS\_PRIVATE yields EINVAL when the check of the propagation flags
  is reached, that is when none of the flags above is set, the target path resolves and
  MS\_BIND is not set; a target that does not resolve returns its own error first, and with
  MS\_BIND set the call goes to \<open>BindAt\<close> (or returns the error of the source path)
  whatever the propagation flags are.
\<close>

theorem Mount_flag_checks:
  "(\<not> cap_sys_admin t \<longrightarrow> Mount t flags = Return EPERM) \<and>
   (cap_sys_admin t \<and>
    (strip_magic flags AND MS_REMOUNT \<noteq> 0 \<or> strip_magic flags AND MS_SLAVE \<noteq> 0 \<or>
     strip_magic flags AND MS_UNBINDABLE \<noteq> 0 \<or> strip_magic flags AND MS_MOVE \<noteq> 0 \<or>
     strip_magic flags AND MS_REC \<noteq> 0 \<or> strip_magic flags AND MS_NODIRATIME \<noteq> 0 \<or>
     strip_magic flags AND MS_STRICTATIME \<noteq> 0) \<longrightarrow>
      Mount t flags = Return EINVAL) \<and>
   (Mount t flags = SetMountPropagationAt p \<longrightarrow>
      (p = MS_SHARED \<or> p = MS_PRIVATE) \<and> p = strip_magic flags AND propagationFlags \<and>
      strip_magic flags AND MS_SLAVE = 0 \<and> strip_magic flags AND MS_UNBINDABLE = 0) \<and>
   (cap_sys_admin t \<and> strip_magic flags AND unsupported = 0 \<and> target_err t = None \<and>
    strip_magic flags AND MS_BIND \<noteq> MS_BIND \<and>
    strip_magic flags AND MS_SHARED \<noteq> 0 \<and> strip_magic flags AND MS_PRIVATE \<noteq> 0 \<longrightarrow>
      Mount t flags = Return EINVAL) \<and>
   (cap_sys_admin t \<and> strip_magic flags AND unsupported = 0 \<and> target_err t = Some e \<longrightarrow>
      Mount t flags = Return e) \<and>
   (cap_sys_admin t \<and> strip_magic flags AND unsupported = 0 \<and> target_err t = None \<and>
    strip_magic flags AND MS_BIND = MS_BIND \<longrightarrow>
      Mount t flags = (case bind_source_err t of Some e' \<Rightarrow> Return e' | None \<Rightarrow> BindAt))"
proof -
  let ?f = "strip_magic flags"
  have tgt: "cap_sys_admin t \<and> ?f AND unsupported = 0 \<and> target_err t = Some e \<longrightarrow>
      Mount t flags = Return e"
    by (simp add: Mount_unfold)
  have bnd: "cap_sys_admin t \<and> ?f AND unsupported = 0 \<and> target_err t = None \<and>
    ?f AND MS_BIND = MS_BIND \<longrightarrow>
      Mount t flags = (case bind_source_err t of Some e' \<Rightarrow> Return e' | None \<Rightarrow> BindAt)"
    by (simp add: Mount_unfold)
  have a: "\<not> cap_sys_admin t \<longrightarrow> Mount t flags = Return EPERM"
    by (simp add: Mount_unfold)
  have b: "cap_sys_admin t \<and>
    (?f AND MS_REMOUNT \<noteq> 0 \<or> ?f AND MS_SLAVE \<noteq> 0 \<or> ?f AND MS_UNBINDABLE \<noteq> 0 \<or>
     ?f AND MS_MOVE \<noteq> 0 \<or> ?f AND MS_REC \<noteq> 0 \<or> ?f AND MS_NODIRATIME \<noteq> 0 \<or>
     ?f AND MS_STRICTATIME \<noteq> 0) \<longrightarrow> Mount t flags = Return EINVAL"
    using unsupported_iff [of ?f] by (auto simp: Mount_unfold)
  have c: "Mount t flags = SetMountPropagationAt p \<longrightarrow>
      (p = MS_SHARED \<or> p = MS_PRIVATE) \<and> p = ?f AND propagationFlags \<and>
      ?f AND MS_SLAVE = 0 \<and> ?f AND MS_UNBINDABLE = 0"
  proof
    assume m: "Mount t flags = SetMountPropagationAt p"
    from Mount_reaches_propagation [OF m] unsupported_iff [of ?f]
    show "(p = MS_SHARED \<or> p = MS_PRIVATE) \<and> p = ?f AND propagationFlags \<and>
      ?f AND MS_SLAVE = 0 \<and> ?f AND MS_UNBINDABLE = 0"
      by auto
  qed
  have d: "cap_sys_admin t \<and> ?f AND unsupported = 0 \<and> target_err t = None \<and>
    ?f AND MS_BIND \<noteq> MS_BIND \<and> ?f AND MS_SHARED \<noteq> 0 \<and> ?f AND MS_PRIVATE \<noteq> 0 \<longrightarrow>
      Mount t flags = Return EINVAL"
  proof
    assume h: "cap_sys_admin t \<and> ?f AND unsupported = 0 \<and> target_err t = None \<and>
      ?f AND MS_BIND \<noteq> MS_BIND \<and> ?f AND MS_SHARED \<noteq> 0 \<and> ?f AND MS_PRIVATE \<noteq> 0"
    then have u: "?f AND unsupported = 0" by simp
    then have "?f AND MS_SLAVE = 0 \<and> ?f AND MS_UNBINDABLE = 0"
      using unsupported_iff [of ?f] by auto
    then have e: "?f AND propagationFlags = (?f AND MS_SHARED) OR (?f AND MS_PRIVATE)"
      by (simp add: propagationFlags_def bit.conj_disj_distrib)
    from h have "?f AND MS_SHARED = MS_SHARED" "?f AND MS_PRIVATE = MS_PRIVATE"
      unfolding ms_pow2 and_pow2 by (auto split: if_splits)
    with e have "?f AND propagationFlags = MS_SHARED OR MS_PRIVATE" by simp
    with h pow2_single show "Mount t flags = Return EINVAL"
      by (simp add: Mount_unfold)
  qed
  from a b c d tgt bnd show ?thesis by blast
qed

text \<open>
  C10 as stated fails for a caller without CAP\_SYS\_ADMIN: with MS\_REMOUNT set the call
  returns EPERM, not EINVAL.
\<close>

theorem Mount_unprivileged_EPERM:
  "strip_magic MS_REMOUNT AND MS_REMOUNT \<noteq> 0 \<and>
   Mount unprivileged MS_REMOUNT = Return EPERM \<and>
   Mount unprivileged MS_REMOUNT \<noteq> Return EINVAL"
  by (simp add: Mount_unfold unprivileged_def strip_magic_def ms_defs)

theorem Mount_flag_checks_witness:
  "Mount unprivileged MS_SLAVE = Return EPERM \<and>
   Mount privileged MS_SLAVE = Return EINVAL \<and>
   Mount privileged (MS_MGC_VAL OR MS_REC) = Return EINVAL \<and>
   Mount privileged MS_SHARED = SetMountPropagationAt MS_SHARED \<and>
   Mount privileged (MS_SHARED OR MS_PRIVATE) = Return EINVAL \<and>
   Mount privileged (MS_BIND OR MS_SHARED OR MS_PRIVATE) = BindAt \<and>
   Mount (privileged\<lparr>target_err := Some EFAULT\<rparr>) (MS_SHARED OR MS_PRIVATE) = Return EFAULT"
proof -
  have 6: "Mount privileged (MS_BIND OR MS_SHARED OR MS_PRIVATE) = BindAt"
    using Mount_flag_checks [of privileged "MS_BIND OR MS_SHARED OR MS_PRIVATE" 0 EFAULT]
    by (simp add: privileged_def strip_magic_def ms_defs unsupported_def)
  have 7: "Mount (privileged\<lparr>target_err := Some EFAULT\<rparr>) (MS_SHARED OR MS_PRIVATE) =
             Return EFAULT"
    using Mount_flag_checks [of "privileged\<lparr>target_err := Some EFAULT\<rparr>"
        "MS_SHARED OR MS_PRIVATE" 0 EFAULT]
    by (simp add: privileged_def strip_magic_def ms_defs unsupported_def)
  have 1: "Mount unprivileged MS_SLAVE = Return EPERM"
    using Mount_flag_checks [of unprivileged MS_SLAVE 0] by (simp add: unprivileged_def)
  have 2: "Mount privileged MS_SLAVE = Return EINVAL"
    using Mount_flag_checks [of privileged MS_SLAVE 0]
    by (simp add: privileged_def strip_magic_def ms_defs)
  have 3: "Mount privileged (MS_MGC_VAL OR MS_REC) = Return EINVAL"
    using Mount_flag_checks [of privileged "MS_MGC_VAL OR MS_REC" 0]
    by (simp add: privileged_def strip_magic_def ms_defs)
  have 4: "Mount privileged MS_SHARED = SetMountPropagationAt MS_SHARED"
    by (simp add: Mount_unfold privileged_def strip_magic_def ms_defs propagationFlags_def
          unsupported_def IsPowerOfTwo64_def)
  from Mount_flag_checks [of privileged MS_SHARED MS_SHARED] 4
  have "MS_SHARED = strip_magic MS_SHARED AND propagationFlags" by simp
  have 5: "Mount privileged (MS_SHARED OR MS_PRIVATE) = Return EINVAL"
    using Mount_flag_checks [of privileged "MS_SHARED OR MS_PRIVATE" 0]
    by (simp add: privileged_def strip_magic_def ms_defs unsupported_def)
  from 1 2 3 4 5 6 7 show ?thesis by blast
qed

section \<open>Properties of the CPU count\<close>

text \<open>
  C8 as stated fails: the quota only ever lowers the count. With 4 CPUs in the cgroup and a
  quota of 8 the sandbox gets 4, not 8; with 1 CPU and a quota of one half it gets 1, not 2.
\<close>

theorem cpu_num_not_ceil_quota:
  "cpu_num_arg True (Some \<lparr>NumCPU = Inr 4, CPUQuota = Inr 8\<rparr>) = Inr (Some 4) \<and>
   max 2 \<lceil>8 :: real\<rceil> = 8 \<and>
   cpu_num_arg True (Some \<lparr>NumCPU = Inr 1, CPUQuota = Inr (1 / 2)\<rparr>) = Inr (Some 1) \<and>
   max 2 \<lceil>1 / 2 :: real\<rceil> = 2"
  by (simp add: cpu_num_arg_def int_of_Ceil_def minCPUs_def)

text \<open>
  C8, amended. When cpu-num-from-quota is set and the sandbox has a cgroup whose CPU count
  and quota can be read, then for every positive quota (whose ceiling fits an \<open>int\<close>) the
  count passed with \<open>--cpu-num\<close> is the smaller of the cgroup's CPU count and the ceiling of
  the quota clamped to a minimum of 2: the quota lowers the count and never raises it.
\<close>

theorem cpu_num_from_quota:
  assumes "0 < quota" and "\<lceil>quota\<rceil> < 2 ^ 63"
  shows "cpu_num_arg True (Some \<lparr>NumCPU = Inr cpuNum, CPUQuota = Inr quota\<rparr>) =
           Inr (Some (min cpuNum (max 2 \<lceil>quota\<rceil>)))"
proof -
  from assms(1) have pos: "0 < \<lceil>quota\<rceil>" by simp
  then have "- (2 ^ 63) \<le> \<lceil>quota\<rceil>"
    by (meson less_le_not_le neg_le_0_iff_le order_trans zero_le_numeral zero_le_power)
  with assms(2) have n: "int_of_Ceil quota = \<lceil>quota\<rceil>"
    by (simp add: int_of_Ceil_def)
  show ?thesis
    using pos by (auto simp: cpu_num_arg_def n minCPUs_def Let_def min_def max_def)
qed

theorem cpu_num_from_quota_witness:
  "cpu_num_arg True (Some \<lparr>NumCPU = Inr 16, CPUQuota = Inr (5 / 2)\<rparr>) = Inr (Some 3) \<and>
   cpu_num_arg True (Some \<lparr>NumCPU = Inr 16, CPUQuota = Inr (1 / 2)\<rparr>) = Inr (Some 2) \<and>
   cpu_num_arg True (Some \<lparr>NumCPU = Inr 4, CPUQuota = Inr 8\<rparr>) = Inr (Some 4)"
proof -
  have a: "(0::real) < 5 / 2" "\<lceil>5 / 2 :: real\<rceil> < 2 ^ 63"
    and b: "(0::real) < 1 / 2" "\<lceil>1 / 2 :: real\<rceil> < 2 ^ 63"
    and c: "(0::real) < 8" "\<lceil>8 :: real\<rceil> < 2 ^ 63"
    by simp_all
  from cpu_num_from_quota [OF a, of 16] cpu_num_from_quota [OF b, of 16]
    cpu_num_from_quota [OF c, of 4]
  show ?thesis by simp
qed

section \<open>Properties of Restore\<close>

lemma Restore_from_empty:
  assumes "file_stat f = Inr 0"
  shows "fst (Restore_from env f l) \<noteq> None \<and>
         state_loaded (snd (Restore_from env f l)) = state_loaded l \<and>
         (platform_err env = None \<and> memfile_err env = None \<and> configure_err env = None \<longrightarrow>
            fst (Restore_from env f l) = Some ''file cannot be empty'')"
  using assms
  by (simp add: Restore_from_def Let_def split: option.splits)

lemma Restore_from_loaded:
  assumes "state_loaded (snd (Restore_from env f l)) \<noteq> state_loaded l \<or>
           fst (Restore_from env f l) = None"
  shows "\<exists>sz. file_stat f = Inr sz \<and> sz \<noteq> 0"
  using assms
  by (auto simp: Restore_from_def Let_def split: option.splits sum.splits if_splits)

lemma Restore_from_ok:
  assumes "fst (Restore_from env f l) = None"
  shows "state_loaded (snd (Restore_from env f l))"
  using assms
  by (auto simp: Restore_from_def Let_def split: option.splits sum.splits if_splits)

text \<open>
  C9. \<open>Restore\<close> called with no file returns the error "at least one file must be passed
  to Restore", called with more than two files the error "at most two files may be passed to
  Restore", both without touching the loader. With a state file of size zero it returns an
  error and loads no state; when the steps before the size check succeed the error is "file
  cannot be empty". It returns success, and it loads state, only with one or two files and a
  state file whose size is not zero.
\<close>

theorem Restore_rejects:
  "(files = [] \<longrightarrow>
      Restore env files l = (Some ''at least one file must be passed to Restore'', l)) \<and>
   (2 < length files \<longrightarrow>
      Restore env files l = (Some ''at most two files may be passed to Restore'', l)) \<and>
   (files \<noteq> [] \<and> file_stat (files ! 0) = Inr 0 \<longrightarrow>
      fst (Restore env files l) \<noteq> None \<and>
      state_loaded (snd (Restore env files l)) = state_loaded l) \<and>
   ((length files = 1 \<or> length files = 2 \<and> dup_err env = None) \<and>
    file_stat (files ! 0) = Inr 0 \<and>
    platform_err env = None \<and> memfile_err env = None \<and> configure_err env = None \<longrightarrow>
      fst (Restore env files l) = Some ''file cannot be empty'') \<and>
   (fst (Restore env files l) = None \<or>
    state_loaded (snd (Restore env files l)) \<noteq> state_loaded l \<longrightarrow>
      (length files = 1 \<or> length files = 2) \<and>
      (\<exists>sz. file_stat (files ! 0) = Inr sz \<and> sz \<noteq> 0)) \<and>
   (fst (Restore env files l) = None \<longrightarrow> state_loaded (snd (Restore env files l)))"
proof -
  have a: "files = [] \<longrightarrow>
      Restore env files l = (Some ''at least one file must be passed to Restore'', l)"
    by (simp add: Restore_def)
  have b: "2 < length files \<longrightarrow>
      Restore env files l = (Some ''at most two files may be passed to Restore'', l)"
    by (auto simp: Restore_def Let_def)
  have c: "files \<noteq> [] \<and> file_stat (files ! 0) = Inr 0 \<longrightarrow>
      fst (Restore env files l) \<noteq> None \<and>
      state_loaded (snd (Restore env files l)) = state_loaded l"
    using Restore_from_empty [of "files ! 0" env]
    by (auto simp: Restore_def Let_def split: option.splits)
  have d: "(length files = 1 \<or> length files = 2 \<and> dup_err env = None) \<and>
    file_stat (files ! 0) = Inr 0 \<and>
    platform_err env = None \<and> memfile_err env = None \<and> configure_err env = None \<longrightarrow>
      fst (Restore env files l) = Some ''file cannot be empty''"
    using Restore_from_empty [of "files ! 0" env]
    by (auto simp: Restore_def Let_def split: option.splits)
  have e: "fst (Restore env files l) = None \<or>
    state_loaded (snd (Restore env files l)) \<noteq> state_loaded l \<longrightarrow>
      (length files = 1 \<or> length files = 2) \<and>
      (\<exists>sz. file_stat (files ! 0) = Inr sz \<and> sz \<noteq> 0)"
    using Restore_from_loaded [of env "files ! 0" l]
      Restore_from_loaded [of env "files ! 0" "l\<lparr>device_duplicated := True\<rparr>"]
    by (auto simp: Restore_def Let_def split: option.splits if_splits)
  have f: "fst (Restore env files l) = None \<longrightarrow> state_loaded (snd (Restore env files l))"
    using Restore_from_ok [of env "files ! 0" l]
      Restore_from_ok [of env "files ! 0" "l\<lparr>device_duplicated := True\<rparr>"]
    by (auto simp: Restore_def Let_def split: option.splits if_splits)
  from a b c d e f show ?thesis by blast
qed

theorem Restore_rejects_witness:
  "Restore no_errors [] fresh_loader =
     (Some ''at least one file must be passed to Restore'', fresh_loader) \<and>
   Restore no_errors [\<lparr>file_stat = Inr 7\<rparr>, \<lparr>file_stat = Inr 7\<rparr>, \<lparr>file_stat = Inr 7\<rparr>] fresh_loader =
     (Some ''at most two files may be passed to Restore'', fresh_loader) \<and>
   fst (Restore no_errors [\<lparr>file_stat = Inr 0\<rparr>] fresh_loader) = Some ''file cannot be empty'' \<and>
   \<not> state_loaded (snd (Restore no_errors [\<lparr>file_stat = Inr 0\<rparr>] fresh_loader)) \<and>
   fst (Restore no_errors [\<lparr>file_stat = Inr 7\<rparr>, \<lparr>file_stat = Inr 0\<rparr>] fresh_loader) = None \<and>
   state_loaded (snd (Restore no_errors [\<lparr>file_stat = Inr 7\<rparr>, \<lparr>file_stat = Inr 0\<rparr>] fresh_loader))"
proof -
  have 1: "Restore no_errors [] fresh_loader =
     (Some ''at least one file must be passed to Restore'', fresh_loader)"
    using Restore_rejects [of "[]" no_errors fresh_loader] by simp
  have 2: "Restore no_errors [\<lparr>file_stat = Inr 7\<rparr>, \<lparr>file_stat = Inr 7\<rparr>, \<lparr>file_stat = Inr 7\<rparr>]
             fresh_loader =
     (Some ''at most two files may be passed to Restore'', fresh_loader)"
    using Restore_rejects [of "[\<lparr>file_stat = Inr 7\<rparr>, \<lparr>file_stat = Inr 7\<rparr>, \<lparr>file_stat = Inr 7\<rparr>]"
        no_errors fresh_loader]
    by simp
  have 3: "fst (Restore no_errors [\<lparr>file_stat = Inr 0\<rparr>] fresh_loader) = Some ''file cannot be empty'' \<and>
   \<not> state_loaded (snd (Restore no_errors [\<lparr>file_stat = Inr 0\<rparr>] fresh_loader))"
    using Restore_rejects [of "[\<lparr>file_stat = Inr 0\<rparr>]" no_errors fresh_loader]
    by (simp add: no_errors_def fresh_loader_def)
  have 4: "fst (Restore no_errors [\<lparr>file_stat = Inr 7\<rparr>, \<lparr>file_stat = Inr 0\<rparr>] fresh_loader) = None"
    by (simp add: Restore_def Restore_from_def no_errors_def)
  from 4 Restore_rejects [of "[\<lparr>file_stat = Inr 7\<rparr>, \<lparr>file_stat = Inr 0\<rparr>]" no_errors fresh_loader]
  have 5: "state_loaded (snd (Restore no_errors [\<lparr>file_stat = Inr 7\<rparr>, \<lparr>file_stat = Inr 0\<rparr>]
             fresh_loader))"
    by blast
  from 1 2 3 4 5 show ?thesis by blast
qed

section \<open>Properties of destroying a sandbox\<close>

lemma IsRunning_pid:
  "Pid s \<noteq> 0 \<Longrightarrow>
     IsRunning os s h =
       (fst (unix_Kill os (Pid s) SIG0 h) = None, snd (unix_Kill os (Pid s) SIG0 h))"
  by (cases "unix_Kill os (Pid s) SIG0 h") (auto simp: IsRunning_def split: option.splits)

lemma polled_zero:
  "polled_until_gone os pid 0 h h1 \<longleftrightarrow>
     fst (unix_Kill os pid SIG0 h) \<noteq> None \<and> h1 = snd (unix_Kill os pid SIG0 h)"
  by (auto simp: polled_until_gone_def)

lemma polled_Suc_gone:
  assumes "fst (unix_Kill os pid SIG0 h) \<noteq> None"
  shows "polled_until_gone os pid (Suc n) h h1 \<longleftrightarrow> h1 = snd (unix_Kill os pid SIG0 h)"
proof
  assume "polled_until_gone os pid (Suc n) h h1"
  then obtain k where k: "k \<le> Suc n"
    and before: "\<forall>i<k. fst (unix_Kill os pid SIG0 (poll_state os pid h i)) = None"
    and at: "h1 = snd (unix_Kill os pid SIG0 (poll_state os pid h k))"
    by (auto simp: polled_until_gone_def)
  have "k = 0"
  proof (rule ccontr)
    assume "k \<noteq> 0"
    then have "0 < k" by simp
    with before have "fst (unix_Kill os pid SIG0 (poll_state os pid h 0)) = None" by blast
    with assms show False by simp
  qed
  with at show "h1 = snd (unix_Kill os pid SIG0 h)" by simp
next
  assume "h1 = snd (unix_Kill os pid SIG0 h)"
  with assms show "polled_until_gone os pid (Suc n) h h1"
    unfolding polled_until_gone_def by (intro bexI [of _ 0]) auto
qed

lemma polled_Suc_running:
  assumes "fst (unix_Kill os pid SIG0 h) = None"
  shows "polled_until_gone os pid (Suc n) h h1 \<longleftrightarrow>
         polled_until_gone os pid n (backoff_wait os (snd (unix_Kill os pid SIG0 h))) h1"
proof
  let ?h' = "backoff_wait os (snd (unix_Kill os pid SIG0 h))"
  assume "polled_until_gone os pid (Suc n) h h1"
  then obtain k where k: "k \<le> Suc n"
    and before: "\<forall>i<k. fst (unix_Kill os pid SIG0 (poll_state os pid h i)) = None"
    and gone: "fst (unix_Kill os pid SIG0 (poll_state os pid h k)) \<noteq> None"
    and at: "h1 = snd (unix_Kill os pid SIG0 (poll_state os pid h k))"
    by (auto simp: polled_until_gone_def)
  from gone assms have "k \<noteq> 0" by (cases k) auto
  then obtain j where j: "k = Suc j" by (cases k) auto
  have "\<forall>i<j. fst (unix_Kill os pid SIG0 (poll_state os pid ?h' i)) = None"
  proof (intro allI impI)
    fix i assume "i < j"
    with j have "Suc i < k" by simp
    with before have "fst (unix_Kill os pid SIG0 (poll_state os pid h (Suc i))) = None" by blast
    then show "fst (unix_Kill os pid SIG0 (poll_state os pid ?h' i)) = None" by simp
  qed
  moreover from gone j have "fst (unix_Kill os pid SIG0 (poll_state os pid ?h' j)) \<noteq> None"
    by simp
  moreover from at j have "h1 = snd (unix_Kill os pid SIG0 (poll_state os pid ?h' j))"
    by simp
  moreover from k j have "j \<le> n" by simp
  ultimately show "polled_until_gone os pid n ?h' h1"
    unfolding polled_until_gone_def by (intro bexI [of _ j]) auto
next
  let ?h' = "backoff_wait os (snd (unix_Kill os pid SIG0 h))"
  assume "polled_until_gone os pid n ?h' h1"
  then obtain j where j: "j \<le> n"
    and before: "\<forall>i<j. fst (unix_Kill os pid SIG0 (poll_state os pid ?h' i)) = None"
    and gone: "fst (unix_Kill os pid SIG0 (poll_state os pid ?h' j)) \<noteq> None"
    and at: "h1 = snd (unix_Kill os pid SIG0 (poll_state os pid ?h' j))"
    by (auto simp: polled_until_gone_def)
  have "\<forall>i<Suc j. fst (unix_Kill os pid SIG0 (poll_state os pid h i)) = None"
  proof (intro allI impI)
    fix i assume i: "i < Suc j"
    show "fst (unix_Kill os pid SIG0 (poll_state os pid h i)) = None"
    proof (cases i)
      case 0
      with assms show ?thesis by simp
    next
      case (Suc i')
      with i have "i' < j" by simp
      with before Suc show ?thesis by simp
    qed
  qed
  with gone at j show "polled_until_gone os pid (Suc n) h h1"
    unfolding polled_until_gone_def by (intro bexI [of _ "Suc j"]) auto
qed

lemma Retry_polled:
  assumes "Pid s \<noteq> 0"
  shows "Retry os s n h = (None, h1) \<longleftrightarrow> polled_until_gone os (Pid s) n h h1"
proof (induction n arbitrary: h)
  case 0
  show ?case
    by (cases "fst (unix_Kill os (Pid s) SIG0 h) = None")
       (auto simp: IsRunning_pid [OF assms] polled_zero)
next
  case (Suc n)
  show ?case
  proof (cases "fst (unix_Kill os (Pid s) SIG0 h) = None")
    case True
    then show ?thesis
      by (simp add: IsRunning_pid [OF assms] polled_Suc_running Suc.IH)
  next
    case False
    then show ?thesis
      by (auto simp: IsRunning_pid [OF assms] polled_Suc_gone)
  qed
qed

lemma Retry_error:
  "fst (Retry os s n h) = None \<or> fst (Retry os s n h) = Some ''sandbox is still running''"
  by (induction n arbitrary: h) (auto split: prod.splits bool.splits)

lemma remove_control_file_path:
  "remove_control_file os s h =
     (if ControlAddress s \<noteq> [] \<and> hd (ControlAddress s) \<noteq> CHR 0x00
      then snd (os_Remove os (ControlAddress s) h) else h)"
  by (cases "ControlAddress s") (simp_all add: remove_control_file_def)

lemma destroy_no_pid:
  "Pid s = 0 \<Longrightarrow> Sandbox_destroy os n s h = (None, s, remove_control_file os s h)"
  by (simp add: Sandbox_destroy_def)

lemma destroy_kill_failed:
  assumes "Pid s \<noteq> 0"
    and "unix_Kill os (Pid s) SIGKILL (remove_control_file os s h) = (e, h2)"
    and "e \<noteq> None" and "e \<noteq> Some ESRCH"
  shows "Sandbox_destroy os n s h = (Some (KillFailed (the e)), s, h2)"
  using assms by (simp add: Sandbox_destroy_def)

lemma destroy_child:
  assumes "Pid s \<noteq> 0" and "child s"
  shows "Sandbox_destroy os n s h = (None, s1, h1) \<longleftrightarrow>
           (\<exists>e h2 st. unix_Kill os (Pid s) SIGKILL (remove_control_file os s h) = (e, h2) \<and>
              (e = None \<or> e = Some ESRCH) \<and>
              unix_Wait4 os (Pid s) h2 = (Inr st, h1) \<and> s1 = s\<lparr>status := st, Pid := 0\<rparr>)"
proof -
  obtain e h2 where k: "unix_Kill os (Pid s) SIGKILL (remove_control_file os s h) = (e, h2)"
    by (cases "unix_Kill os (Pid s) SIGKILL (remove_control_file os s h)")
  obtain w h3 where w: "unix_Wait4 os (Pid s) h2 = (w, h3)"
    by (cases "unix_Wait4 os (Pid s) h2")
  show ?thesis
  proof (cases "e = None \<or> e = Some ESRCH")
    case False
    then have "Sandbox_destroy os n s h = (Some (KillFailed (the e)), s, h2)"
      using assms(1) k by (simp add: Sandbox_destroy_def)
    with False k show ?thesis by simp
  next
    case ok: True
    show ?thesis
    proof (cases w)
      case (Inl er)
      with ok assms k w
      have "Sandbox_destroy os n s h =
              (Some (StopFailed (''error waiting the sandbox process: '' @ er)), s, h3)"
        by (auto simp: Sandbox_destroy_def waitForStopped_def)
      with k w Inl show ?thesis by simp
    next
      case (Inr st)
      with ok assms k w
      have "Sandbox_destroy os n s h = (None, s\<lparr>status := st, Pid := 0\<rparr>, h3)"
        by (auto simp: Sandbox_destroy_def waitForStopped_def)
      with k w Inr ok show ?thesis by auto
    qed
  qed
qed

lemma destroy_polling_eq:
  assumes "Pid s \<noteq> 0" and "\<not> child s"
    and "unix_Kill os (Pid s) SIGKILL (remove_control_file os s h) = (e, h2)"
    and "Retry os s n h2 = (r, h3)"
  shows "Sandbox_destroy os n s h =
           (if e \<noteq> None \<and> e \<noteq> Some ESRCH then (Some (KillFailed (the e)), s, h2)
            else (map_option StopFailed r, s, h3))"
  using assms by (cases r) (simp_all add: Sandbox_destroy_def waitForStopped_def)

lemma destroy_polling:
  assumes "Pid s \<noteq> 0" and "\<not> child s"
  shows "fst (snd (Sandbox_destroy os n s h)) = s"
    and "Sandbox_destroy os n s h = (None, s1, h1) \<longleftrightarrow>
           s1 = s \<and>
           (\<exists>e h2. unix_Kill os (Pid s) SIGKILL (remove_control_file os s h) = (e, h2) \<and>
              (e = None \<or> e = Some ESRCH) \<and> polled_until_gone os (Pid s) n h2 h1)"
proof -
  obtain e h2 where k: "unix_Kill os (Pid s) SIGKILL (remove_control_file os s h) = (e, h2)"
    by (cases "unix_Kill os (Pid s) SIGKILL (remove_control_file os s h)")
  obtain r h3 where r: "Retry os s n h2 = (r, h3)" by (cases "Retry os s n h2")
  note D = destroy_polling_eq [OF assms k r]
  show "fst (snd (Sandbox_destroy os n s h)) = s"
    by (simp add: D)
  have P: "(r = None \<and> h3 = h1) \<longleftrightarrow> polled_until_gone os (Pid s) n h2 h1"
    using Retry_polled [OF assms(1), of os n h2 h1] r by auto
  show "Sandbox_destroy os n s h = (None, s1, h1) \<longleftrightarrow>
           s1 = s \<and>
           (\<exists>e h2. unix_Kill os (Pid s) SIGKILL (remove_control_file os s h) = (e, h2) \<and>
              (e = None \<or> e = Some ESRCH) \<and> polled_until_gone os (Pid s) n h2 h1)"
  proof (cases "e = None \<or> e = Some ESRCH")
    case False
    with D k show ?thesis by simp
  next
    case True
    with D have "Sandbox_destroy os n s h = (map_option StopFailed r, s, h3)" by auto
    with True k P show ?thesis by auto
  qed
qed

lemma destroy_polling_ok:
  assumes "Pid s \<noteq> 0" and "\<not> child s"
  shows "fst (Sandbox_destroy os n s h) = None \<longleftrightarrow>
           (\<exists>e h2 h3. unix_Kill os (Pid s) SIGKILL (remove_control_file os s h) = (e, h2) \<and>
              (e = None \<or> e = Some ESRCH) \<and> polled_until_gone os (Pid s) n h2 h3)"
proof
  assume "fst (Sandbox_destroy os n s h) = None"
  then obtain s1 h1 where r: "Sandbox_destroy os n s h = (None, s1, h1)"
    by (cases "Sandbox_destroy os n s h") auto
  from iffD1 [OF destroy_polling(2) [OF assms] r]
  obtain e h2 where "unix_Kill os (Pid s) SIGKILL (remove_control_file os s h) = (e, h2)"
    and "e = None \<or> e = Some ESRCH" and "polled_until_gone os (Pid s) n h2 h1"
    by auto
  then show "\<exists>e h2 h3. unix_Kill os (Pid s) SIGKILL (remove_control_file os s h) = (e, h2) \<and>
              (e = None \<or> e = Some ESRCH) \<and> polled_until_gone os (Pid s) n h2 h3"
    by (intro exI [of _ e] exI [of _ h2] exI [of _ h1]) simp
next
  assume "\<exists>e h2 h3. unix_Kill os (Pid s) SIGKILL (remove_control_file os s h) = (e, h2) \<and>
              (e = None \<or> e = Some ESRCH) \<and> polled_until_gone os (Pid s) n h2 h3"
  then obtain e h2 h3 where
    k: "unix_Kill os (Pid s) SIGKILL (remove_control_file os s h) = (e, h2)"
    and e: "e = None \<or> e = Some ESRCH" and g: "polled_until_gone os (Pid s) n h2 h3"
    by auto
  have "s = s \<and>
        (\<exists>e h2. unix_Kill os (Pid s) SIGKILL (remove_control_file os s h) = (e, h2) \<and>
           (e = None \<or> e = Some ESRCH) \<and> polled_until_gone os (Pid s) n h2 h3)"
    using k e g by (intro conjI exI [of _ e] exI [of _ h2]) simp_all
  from iffD2 [OF destroy_polling(2) [OF assms] this]
  show "fst (Sandbox_destroy os n s h) = None" by simp
qed

text \<open>
  C2 as stated fails for a sandbox that is not a child of the caller: its pid is kept after
  the first call, and the second call sends SIGKILL to that pid again. On a host where the
  pid then belongs to a process the caller may not signal, the first call succeeds and the
  second call, from the host state the first one left, returns an error.
\<close>

theorem Sandbox_destroy_second_fails:
  "Sandbox_destroy stale_pid_host 3 example_sandbox False = (None, example_sandbox, True) \<and>
   Sandbox_destroy stale_pid_host 3 example_sandbox True =
     (Some (KillFailed EPERM), example_sandbox, True)"
  by (simp add: Sandbox_destroy_def remove_control_file_def waitForStopped_def IsRunning_def
        stale_pid_host_def example_sandbox_def eval_nat_numeral)

text \<open>
  C2, amended. The control socket file is removed (an error is only logged) exactly when the
  control address is not empty and does not start with a zero byte. Let a first call of
  \<open>destroy\<close> return success. If no pid was known it has done nothing else. Otherwise it
  has sent SIGKILL, which the host answered with nil or ESRCH, and has waited: for a child
  process with \<open>Wait4\<close>, after which the pid is 0; otherwise by polling with signal 0
  until, within the deadline, the host answered with an error, the sandbox staying as it
  was. A second call, on any host state: for a child sandbox or one without a pid, tries the
  removal again, does nothing else and returns success with the sandbox unchanged; for any
  other sandbox it leaves the sandbox unchanged, sends SIGKILL to the same pid again, and
  returns success exactly when the host answers that with nil or ESRCH and a poll within the
  deadline then reports the process gone; any other answer to SIGKILL is returned as an
  error.
\<close>

theorem Sandbox_destroy_twice:
  assumes "Sandbox_destroy os n s h = (None, s1, h1)"
  shows "(\<forall>s' h'. remove_control_file os s' h' =
            (if ControlAddress s' \<noteq> [] \<and> hd (ControlAddress s') \<noteq> CHR 0x00
             then snd (os_Remove os (ControlAddress s') h') else h')) \<and>
         (Pid s = 0 \<longrightarrow> s1 = s \<and> h1 = remove_control_file os s h) \<and>
         (Pid s \<noteq> 0 \<longrightarrow>
            (\<exists>e h2. unix_Kill os (Pid s) SIGKILL (remove_control_file os s h) = (e, h2) \<and>
               (e = None \<or> e = Some ESRCH) \<and>
               (if child s
                then \<exists>st. unix_Wait4 os (Pid s) h2 = (Inr st, h1) \<and>
                          s1 = s\<lparr>status := st, Pid := 0\<rparr>
                else s1 = s \<and> polled_until_gone os (Pid s) n h2 h1))) \<and>
         (child s \<or> Pid s = 0 \<longrightarrow>
            (\<forall>m h'. Sandbox_destroy os m s1 h' = (None, s1, remove_control_file os s1 h'))) \<and>
         (\<not> child s \<and> Pid s \<noteq> 0 \<longrightarrow>
            (\<forall>m h'.
               fst (snd (Sandbox_destroy os m s1 h')) = s1 \<and>
               (fst (Sandbox_destroy os m s1 h') = None \<longleftrightarrow>
                  (\<exists>e h2 h3.
                     unix_Kill os (Pid s1) SIGKILL (remove_control_file os s1 h') = (e, h2) \<and>
                     (e = None \<or> e = Some ESRCH) \<and>
                     polled_until_gone os (Pid s1) m h2 h3)) \<and>
               (\<forall>e h2.
                  unix_Kill os (Pid s1) SIGKILL (remove_control_file os s1 h') = (e, h2) \<and>
                  e \<noteq> None \<and> e \<noteq> Some ESRCH \<longrightarrow>
                    Sandbox_destroy os m s1 h' = (Some (KillFailed (the e)), s1, h2))))"
proof -
  have a: "Pid s = 0 \<longrightarrow> s1 = s \<and> h1 = remove_control_file os s h"
    using assms by (auto simp: destroy_no_pid)
  have b: "Pid s \<noteq> 0 \<longrightarrow>
            (\<exists>e h2. unix_Kill os (Pid s) SIGKILL (remove_control_file os s h) = (e, h2) \<and>
               (e = None \<or> e = Some ESRCH) \<and>
               (if child s
                then \<exists>st. unix_Wait4 os (Pid s) h2 = (Inr st, h1) \<and>
                          s1 = s\<lparr>status := st, Pid := 0\<rparr>
                else s1 = s \<and> polled_until_gone os (Pid s) n h2 h1))"
  proof
    assume p: "Pid s \<noteq> 0"
    show "\<exists>e h2. unix_Kill os (Pid s) SIGKILL (remove_control_file os s h) = (e, h2) \<and>
               (e = None \<or> e = Some ESRCH) \<and>
               (if child s
                then \<exists>st. unix_Wait4 os (Pid s) h2 = (Inr st, h1) \<and>
                          s1 = s\<lparr>status := st, Pid := 0\<rparr>
                else s1 = s \<and> polled_until_gone os (Pid s) n h2 h1)"
    proof (cases "child s")
      case True
      with destroy_child [OF p True, of os n h s1 h1] assms show ?thesis by auto
    next
      case False
      with destroy_polling(2) [OF p False, of os n h s1 h1] assms show ?thesis by auto
    qed
  qed
  have p0: "Pid s1 = 0" if "child s \<or> Pid s = 0"
  proof (cases "Pid s = 0")
    case True
    with a show ?thesis by simp
  next
    case False
    with that have "child s" by simp
    with b False show ?thesis by auto
  qed
  have c: "child s \<or> Pid s = 0 \<longrightarrow>
            (\<forall>m h'. Sandbox_destroy os m s1 h' = (None, s1, remove_control_file os s1 h'))"
    using p0 by (auto simp: destroy_no_pid)
  have d: "\<not> child s \<and> Pid s \<noteq> 0 \<longrightarrow>
            (\<forall>m h'.
               fst (snd (Sandbox_destroy os m s1 h')) = s1 \<and>
               (fst (Sandbox_destroy os m s1 h') = None \<longleftrightarrow>
                  (\<exists>e h2 h3.
                     unix_Kill os (Pid s1) SIGKILL (remove_control_file os s1 h') = (e, h2) \<and>
                     (e = None \<or> e = Some ESRCH) \<and>
                     polled_until_gone os (Pid s1) m h2 h3)) \<and>
               (\<forall>e h2.
                  unix_Kill os (Pid s1) SIGKILL (remove_control_file os s1 h') = (e, h2) \<and>
                  e \<noteq> None \<and> e \<noteq> Some ESRCH \<longrightarrow>
                    Sandbox_destroy os m s1 h' = (Some (KillFailed (the e)), s1, h2)))"
  proof
    assume h: "\<not> child s \<and> Pid s \<noteq> 0"
    with b have s1: "s1 = s" by auto
    with h have p: "Pid s1 \<noteq> 0" and nc: "\<not> child s1" by simp_all
    show "\<forall>m h'.
               fst (snd (Sandbox_destroy os m s1 h')) = s1 \<and>
               (fst (Sandbox_destroy os m s1 h') = None \<longleftrightarrow>
                  (\<exists>e h2 h3.
                     unix_Kill os (Pid s1) SIGKILL (remove_control_file os s1 h') = (e, h2) \<and>
                     (e = None \<or> e = Some ESRCH) \<and>
                     polled_until_gone os (Pid s1) m h2 h3)) \<and>
               (\<forall>e h2.
                  unix_Kill os (Pid s1) SIGKILL (remove_control_file os s1 h') = (e, h2) \<and>
                  e \<noteq> None \<and> e \<noteq> Some ESRCH \<longrightarrow>
                    Sandbox_destroy os m s1 h' = (Some (KillFailed (the e)), s1, h2))"
    proof (intro allI conjI)
      fix m h'
      show "fst (snd (Sandbox_destroy os m s1 h')) = s1"
        by (rule destroy_polling(1) [OF p nc])
      show "fst (Sandbox_destroy os m s1 h') = None \<longleftrightarrow>
              (\<exists>e h2 h3.
                 unix_Kill os (Pid s1) SIGKILL (remove_control_file os s1 h') = (e, h2) \<and>
                 (e = None \<or> e = Some ESRCH) \<and>
                 polled_until_gone os (Pid s1) m h2 h3)"
        by (rule destroy_polling_ok [OF p nc])
      fix e h2
      show "unix_Kill os (Pid s1) SIGKILL (remove_control_file os s1 h') = (e, h2) \<and>
              e \<noteq> None \<and> e \<noteq> Some ESRCH \<longrightarrow>
            Sandbox_destroy os m s1 h' = (Some (KillFailed (the e)), s1, h2)"
        using destroy_kill_failed [OF p, of os h' e h2 m] by simp
    qed
  qed
  have e: "\<forall>s' h'. remove_control_file os s' h' =
            (if ControlAddress s' \<noteq> [] \<and> hd (ControlAddress s') \<noteq> CHR 0x00
             then snd (os_Remove os (ControlAddress s') h') else h')"
    by (intro allI) (rule remove_control_file_path)
  show ?thesis by (intro conjI e a b c d)
qed

theorem Sandbox_destroy_twice_witness:
  "Sandbox_destroy simple_host 3 example_sandbox ({42}, {''/run/sb.sock''}) =
     (None, example_sandbox, ({}, {})) \<and>
   polled_until_gone simple_host 42 3 ({}, {''/run/sb.sock''} - {''/run/sb.sock''}) ({}, {}) \<and>
   Sandbox_destroy simple_host 3 example_sandbox ({}, {}) = (None, example_sandbox, ({}, {})) \<and>
   Sandbox_destroy simple_host 3 (example_sandbox\<lparr>child := True\<rparr>) ({42}, {''/run/sb.sock''}) =
     (None, example_sandbox\<lparr>child := True, status := 9, Pid := 0\<rparr>, ({}, {})) \<and>
   Sandbox_destroy simple_host 3 (example_sandbox\<lparr>child := True, status := 9, Pid := 0\<rparr>) ({}, {}) =
     (None, example_sandbox\<lparr>child := True, status := 9, Pid := 0\<rparr>, ({}, {}))"
proof -
  have r1: "Sandbox_destroy simple_host 3 example_sandbox ({42}, {''/run/sb.sock''}) =
     (None, example_sandbox, ({}, {}))"
    by (simp add: Sandbox_destroy_def remove_control_file_def waitForStopped_def IsRunning_def
          simple_host_def example_sandbox_def eval_nat_numeral)
  have p: "Pid example_sandbox = 42" "\<not> child example_sandbox"
    by (simp_all add: example_sandbox_def)
  have k: "unix_Kill simple_host 42 SIGKILL
             (remove_control_file simple_host example_sandbox ({42}, {''/run/sb.sock''})) =
           (None, ({}, {''/run/sb.sock''} - {''/run/sb.sock''}))"
    by (simp add: remove_control_file_def simple_host_def example_sandbox_def)
  from Sandbox_destroy_twice [OF r1] p k
  have r2: "polled_until_gone simple_host 42 3 ({}, {''/run/sb.sock''} - {''/run/sb.sock''})
              ({}, {})"
    by auto
  have r3: "Sandbox_destroy simple_host 3 example_sandbox ({}, {}) =
              (None, example_sandbox, ({}, {}))"
    by (simp add: Sandbox_destroy_def remove_control_file_def waitForStopped_def IsRunning_def
          simple_host_def example_sandbox_def eval_nat_numeral)
  have r4: "Sandbox_destroy simple_host 3 (example_sandbox\<lparr>child := True\<rparr>)
              ({42}, {''/run/sb.sock''}) =
     (None, example_sandbox\<lparr>child := True, status := 9, Pid := 0\<rparr>, ({}, {}))"
    by (simp add: Sandbox_destroy_def remove_control_file_def waitForStopped_def
          simple_host_def example_sandbox_def)
  have rm2: "remove_control_file simple_host
               (example_sandbox\<lparr>child := True, status := 9, Pid := 0\<rparr>) ({}, {}) = ({}, {})"
    by (simp add: remove_control_file_def simple_host_def example_sandbox_def)
  from Sandbox_destroy_twice [OF r4] rm2
  have r5: "Sandbox_destroy simple_host 3
              (example_sandbox\<lparr>child := True, status := 9, Pid := 0\<rparr>) ({}, {}) =
     (None, example_sandbox\<lparr>child := True, status := 9, Pid := 0\<rparr>, ({}, {}))"
    by simp
  from r1 r2 r3 r4 r5 show ?thesis by blast
qed

end
